theory Spec2Isabelle
  imports Complex_Main "HOL-Library.AList" "HOL-Library.Multiset" "HOL-Library.Product_Lexorder"
begin

chapter \<open>The model: AlpacaTracker's fetch, render and deliver\<close>

text \<open>
  A shallow embedding of the tracker's JavaScript: the server fetcher with its bounded
  retry, the embed builder, the webhook client with its edit-or-post delivery, the
  message-id storage and the single-flight cycle. Network and disk are not part of the
  program: every function takes the outcome of each request it issues as an argument and
  returns the list of effects it performed, in order, next to its result.
\<close>

section \<open>Server fetcher\<close>

text \<open>
  \<^verbatim>\<open>ServerFetcher\<close>: the fields of the object. \<^verbatim>\<open>consecutiveErrors\<close> is a JavaScript
  number used as a counter; it is a natural number here (the increment is exact up to
  \<open>2^53\<close>, which no run reaches: every exhaustion sleeps \<^verbatim>\<open>maxRetries\<close> times first).
\<close>

record server_fetcher =
  apiUrl :: string
  maxRetries :: nat
  retryDelay :: nat
  consecutiveErrors :: nat

text \<open>What a call of the fetcher does to the outside, in order.\<close>

datatype fetch_effect = HttpGet string | Sleep nat

text \<open>
  \<^verbatim>\<open>fetchServerInfo(retryCount = 0)\<close>. The argument \<open>http\<close> gives the outcome of the
  \<^verbatim>\<open>axios.get\<close> issued by the invocation with a given \<^verbatim>\<open>retryCount\<close>: \<open>Inr data\<close> when it
  resolves, \<open>Inl error\<close> when it rejects (network error, timeout, non-2xx status). The
  result is the list of effects, the returned data or the thrown error, and the fetcher
  after the call.
\<close>

function fetchServerInfo ::
  "server_fetcher \<Rightarrow> (nat \<Rightarrow> 'e + 'd) \<Rightarrow> nat \<Rightarrow> fetch_effect list \<times> ('e + 'd) \<times> server_fetcher"
where
  "fetchServerInfo f http retryCount =
     (case http retryCount of
        Inr data \<Rightarrow> ([HttpGet (apiUrl f)], Inr data, f\<lparr>consecutiveErrors := 0\<rparr>)
      | Inl error \<Rightarrow>
          if retryCount < maxRetries f then
            (case fetchServerInfo f http (retryCount + 1) of
               (effects, r) \<Rightarrow> (HttpGet (apiUrl f) # Sleep (retryDelay f) # effects, r))
          else
            ([HttpGet (apiUrl f)], Inl error,
             f\<lparr>consecutiveErrors := consecutiveErrors f + 1\<rparr>))"
  by pat_completeness auto
termination
  by (relation "measure (\<lambda>(f, http, retryCount). maxRetries f + 1 - retryCount)") auto

definition getConsecutiveErrors :: "server_fetcher \<Rightarrow> nat" where
  "getConsecutiveErrors f = consecutiveErrors f"

text \<open>The number of times the remote endpoint was invoked.\<close>

definition http_calls :: "fetch_effect list \<Rightarrow> nat" where
  "http_calls effects = length (filter (\<lambda>e. case e of HttpGet _ \<Rightarrow> True | Sleep _ \<Rightarrow> False) effects)"

text \<open>\<^verbatim>\<open>Config\<close>: the constants the tracker constructs its fetcher from.\<close>

definition config_fetcher :: server_fetcher where
  "config_fetcher =
     \<lparr>apiUrl = ''https://api.raccoonlagoon.com/v1/server-info?ip=104.153.104.12:27015&g=tf2'',
      maxRetries = 3, retryDelay = 30 * 1000, consecutiveErrors = 0\<rparr>"

section \<open>JavaScript strings, numbers, Maps and objects\<close>

text \<open>
  A JavaScript string is a list of code units; a code unit is an 8-bit \<^typ>\<open>char\<close> here,
  so the model covers the strings whose code units are below 256. A template literal
  \<^verbatim>\<open>${n}\<close> prints an integer of magnitude below \<open>10^21\<close> in decimal, as below; from there
  on JavaScript prints an exponent, which is not modelled.
\<close>

function decimal_digits :: "int \<Rightarrow> string" where
  "decimal_digits n =
     (if n < 10 then [''0123456789'' ! nat n]
      else decimal_digits (n div 10) @ [''0123456789'' ! nat (n mod 10)])"
  by pat_completeness auto
termination
  by (relation "measure nat") auto

definition int_to_string :: "int \<Rightarrow> string" where
  "int_to_string i = (if i < 0 then CHR ''-'' # decimal_digits (- i) else decimal_digits i)"

text \<open>\<^verbatim>\<open>parts.join(sep)\<close>.\<close>

fun join :: "string \<Rightarrow> string list \<Rightarrow> string" where
  "join sep [] = []"
| "join sep [x] = x"
| "join sep (x # y # ys) = x @ sep @ join sep (y # ys)"

text \<open>
  A \<^verbatim>\<open>Map\<close> from strings to strings is the list of its entries in insertion order, keys
  pairwise distinct: \<^verbatim>\<open>get\<close> is \<^const>\<open>map_of\<close>, \<^verbatim>\<open>set\<close> keeps the place of a key that is
  present and appends a new one (\<^const>\<open>AList.update\<close>), \<^verbatim>\<open>delete\<close> removes the entry
  (\<^const>\<open>AList.delete\<close>). Map objects are shared by reference (the tracker hands the
  storage's Map to the webhook client), so they live in a heap and objects hold
  references to them.
\<close>

type_synonym js_map = "(string \<times> string) list"
type_synonym ref = nat

text \<open>
  A plain object with string values is the list of its own properties in creation order;
  \<^verbatim>\<open>Object.fromEntries\<close> and \<^verbatim>\<open>JSON.parse\<close> create properties one by one, a repeated key
  overwriting the value in place. Enumeration (\<^verbatim>\<open>Object.entries\<close>, \<^verbatim>\<open>JSON.stringify\<close>) lists
  the array-index keys first, in ascending numeric order, then the other keys in creation
  order.
\<close>

type_synonym js_object = "(string \<times> string) list"

definition is_digit :: "char \<Rightarrow> bool" where
  "is_digit c = (c \<in> set ''0123456789'')"

definition digit_value :: "char \<Rightarrow> int" where
  "digit_value c = of_char c - 48"

definition decimal_value :: "string \<Rightarrow> int" where
  "decimal_value s = foldl (\<lambda>n c. 10 * n + digit_value c) 0 s"

text \<open>An array index: a canonical decimal numeral (no leading zero) of value at most \<open>2^32 - 2\<close>.\<close>

definition is_array_index :: "string \<Rightarrow> bool" where
  "is_array_index s =
     (s \<noteq> [] \<and> list_all is_digit s \<and> (s = ''0'' \<or> hd s \<noteq> CHR ''0'') \<and>
      decimal_value s \<le> 2 ^ 32 - 2)"

definition own_entries :: "js_object \<Rightarrow> (string \<times> string) list" where
  "own_entries obj =
     sort_key (\<lambda>(k, v). decimal_value k) (filter (\<lambda>(k, v). is_array_index k) obj) @
     filter (\<lambda>(k, v). \<not> is_array_index k) obj"

definition fromEntries :: "(string \<times> string) list \<Rightarrow> js_object" where
  "fromEntries entries = fold (\<lambda>(k, v) obj. AList.update k v obj) entries []"

section \<open>JSON text\<close>

text \<open>
  \<^verbatim>\<open>JSON.stringify(obj, null, 2)\<close> on an object with string values. A string is quoted with
  the escapes of \<^verbatim>\<open>QuoteJSONString\<close>: the short escapes for backspace, tab, line feed, form
  feed, carriage return, the double quote and the backslash, \<^verbatim>\<open>\u00XX\<close> (lower-case hex)
  for the other code units below 32, and every other code unit as it is.
\<close>

definition hex_digit :: "nat \<Rightarrow> char" where
  "hex_digit n = ''0123456789abcdef'' ! n"

definition quote_char :: "char \<Rightarrow> string" where
  "quote_char c =
     (if c = CHR 0x08 then [CHR 0x5C, CHR ''b'']
      else if c = CHR 0x09 then [CHR 0x5C, CHR ''t'']
      else if c = CHR 0x0A then [CHR 0x5C, CHR ''n'']
      else if c = CHR 0x0C then [CHR 0x5C, CHR ''f'']
      else if c = CHR 0x0D then [CHR 0x5C, CHR ''r'']
      else if c = CHR 0x22 then [CHR 0x5C, CHR 0x22]
      else if c = CHR 0x5C then [CHR 0x5C, CHR 0x5C]
      else if of_char c < (32::nat) then
        [CHR 0x5C, CHR ''u'', CHR ''0'', CHR ''0'',
         hex_digit (of_char c div 16), hex_digit (of_char c mod 16)]
      else [c])"

definition quoteJSONString :: "string \<Rightarrow> string" where
  "quoteJSONString s = CHR 0x22 # concat (map quote_char s) @ [CHR 0x22]"

definition stringify_member :: "string \<times> string \<Rightarrow> string" where
  "stringify_member kv = ''  '' @ quoteJSONString (fst kv) @ '': '' @ quoteJSONString (snd kv)"

definition JSON_stringify :: "js_object \<Rightarrow> string" where
  "JSON_stringify obj =
     (if obj = [] then ''{}''
      else ''{'' @ [CHR 0x0A] @ join ('','' @ [CHR 0x0A]) (map stringify_member (own_entries obj)) @
           [CHR 0x0A] @ ''}'')"

section \<open>Message storage\<close>

text \<open>
  The part of the world the tracker changes: the Map objects, by reference, and the files,
  by path.
\<close>

record world =
  heap :: "ref \<Rightarrow> js_map"
  disk :: "string \<rightharpoonup> string"

text \<open>
  What a call does, in order: the HTTP requests it issues, the Map entries it sets and
  deletes, the files it writes. Console output is not modelled.
\<close>

datatype 'e effect =
    HttpPatch string string 'e
  | HttpPost string 'e
  | MapSet ref string string
  | MapDelete ref string
  | WriteFile string string
  | WriteFailed string

text \<open>\<^verbatim>\<open>MessageStorage\<close>: the path of its file and the reference to its Map.\<close>

record message_storage =
  messageIdsFile :: string
  lastMessageIds :: ref

text \<open>
  \<^verbatim>\<open>saveMessageIds()\<close>. \<open>ok\<close> tells whether \<^verbatim>\<open>fs.writeFileSync\<close> succeeds; when it throws, the
  \<^verbatim>\<open>catch\<close> logs a warning and the file is as it was.
\<close>

definition saveMessageIds :: "message_storage \<Rightarrow> bool \<Rightarrow> world \<Rightarrow> world \<times> 'e effect list" where
  "saveMessageIds ms ok w =
     (let messageIds = fromEntries (heap w (message_storage.lastMessageIds ms)) in
      if ok then
        (w\<lparr>disk := (disk w)(messageIdsFile ms \<mapsto> JSON_stringify messageIds)\<rparr>,
         [WriteFile (messageIdsFile ms) (JSON_stringify messageIds)])
      else (w, [WriteFailed (messageIdsFile ms)]))"

definition map_set :: "ref \<Rightarrow> string \<Rightarrow> string \<Rightarrow> world \<Rightarrow> world" where
  "map_set r k v w = w\<lparr>heap := (heap w)(r := AList.update k v (heap w r))\<rparr>"

definition map_delete :: "ref \<Rightarrow> string \<Rightarrow> world \<Rightarrow> world" where
  "map_delete r k w = w\<lparr>heap := (heap w)(r := AList.delete k (heap w r))\<rparr>"

definition setMessageId ::
  "message_storage \<Rightarrow> string \<Rightarrow> string \<Rightarrow> bool \<Rightarrow> world \<Rightarrow> world \<times> 'e effect list" where
  "setMessageId ms webhookUrl messageId ok w =
     (case saveMessageIds ms ok (map_set (message_storage.lastMessageIds ms) webhookUrl messageId w) of
        (w', effects) \<Rightarrow> (w', MapSet (message_storage.lastMessageIds ms) webhookUrl messageId # effects))"

definition deleteMessageId ::
  "message_storage \<Rightarrow> string \<Rightarrow> bool \<Rightarrow> world \<Rightarrow> world \<times> 'e effect list" where
  "deleteMessageId ms webhookUrl ok w =
     (case saveMessageIds ms ok (map_delete (message_storage.lastMessageIds ms) webhookUrl w) of
        (w', effects) \<Rightarrow> (w', MapDelete (message_storage.lastMessageIds ms) webhookUrl # effects))"

section \<open>Webhook client\<close>

text \<open>
  \<^verbatim>\<open>WebhookClient\<close>: the storage it was given (\<^verbatim>\<open>null\<close> is \<open>None\<close>) and the reference to its
  Map of last message ids. After \<^verbatim>\<open>setLastMessageIds(storage.getLastMessageIds())\<close> the
  client and the storage hold the same reference.
\<close>

record webhook_client =
  messageStorage :: "message_storage option"
  lastMessageIds :: ref

text \<open>
  The answers of the outside during one \<^verbatim>\<open>sendToWebhook\<close>: whether the PATCH resolves,
  whether the POST resolves and with which \<^verbatim>\<open>data?.id\<close> (\<open>None\<close> when the response has
  none), and whether the file write after the eviction and the one after the
  installation succeed.
\<close>

datatype post_reply = PostRejected | PostResolved "string option"

record replies =
  patch_ok :: bool
  post_reply :: post_reply
  evict_write_ok :: bool
  install_write_ok :: bool

text \<open>\<^verbatim>\<open>if (x)\<close> on a string or \<^verbatim>\<open>undefined\<close>: the value when it is a non-empty string.\<close>

definition truthy :: "string option \<Rightarrow> string option" where
  "truthy x = (case x of None \<Rightarrow> None | Some s \<Rightarrow> if s = [] then None else Some s)"

text \<open>The inner \<^verbatim>\<open>catch\<close> of \<^verbatim>\<open>sendToWebhook\<close>: the PATCH was rejected.\<close>

definition sendToWebhook_evict ::
  "webhook_client \<Rightarrow> string \<Rightarrow> bool \<Rightarrow> world \<Rightarrow> world \<times> 'e effect list" where
  "sendToWebhook_evict c webhookUrl ok w =
     (let w1 = map_delete (webhook_client.lastMessageIds c) webhookUrl w in
      case messageStorage c of
        None \<Rightarrow> (w1, [MapDelete (webhook_client.lastMessageIds c) webhookUrl])
      | Some ms \<Rightarrow>
          (case deleteMessageId ms webhookUrl ok w1 of
             (w2, effects) \<Rightarrow> (w2, MapDelete (webhook_client.lastMessageIds c) webhookUrl # effects)))"

text \<open>
  \<^verbatim>\<open>sendToWebhook\<close> from \<^verbatim>\<open>axios.post\<close> on: a rejected POST is caught by the outer \<^verbatim>\<open>catch\<close>
  and gives \<^verbatim>\<open>false\<close>; a resolved one gives \<^verbatim>\<open>true\<close> and records \<^verbatim>\<open>data.id\<close> when it is
  truthy.
\<close>

definition sendToWebhook_post ::
  "webhook_client \<Rightarrow> string \<Rightarrow> 'e \<Rightarrow> replies \<Rightarrow> world \<Rightarrow> world \<times> 'e effect list \<times> bool" where
  "sendToWebhook_post c webhookUrl the_embed io w =
     (case post_reply io of
        PostRejected \<Rightarrow> (w, [HttpPost webhookUrl the_embed], False)
      | PostResolved data_id \<Rightarrow>
          (case truthy data_id of
             None \<Rightarrow> (w, [HttpPost webhookUrl the_embed], True)
           | Some new_id \<Rightarrow>
               (let w1 = map_set (webhook_client.lastMessageIds c) webhookUrl new_id w in
                case messageStorage c of
                  None \<Rightarrow>
                    (w1, [HttpPost webhookUrl the_embed,
                          MapSet (webhook_client.lastMessageIds c) webhookUrl new_id], True)
                | Some ms \<Rightarrow>
                    (case setMessageId ms webhookUrl new_id (install_write_ok io) w1 of
                       (w2, effects) \<Rightarrow>
                         (w2, HttpPost webhookUrl the_embed #
                              MapSet (webhook_client.lastMessageIds c) webhookUrl new_id # effects,
                          True)))))"

text \<open>
  \<^verbatim>\<open>sendToWebhook\<close> after its first statement, \<open>lastMessageId\<close> being what
  \<^verbatim>\<open>this.lastMessageIds.get(webhookUrl)\<close> returned.
\<close>

definition sendToWebhook_from ::
  "webhook_client \<Rightarrow> string \<Rightarrow> 'e \<Rightarrow> string option \<Rightarrow> replies \<Rightarrow> world \<Rightarrow>
   world \<times> 'e effect list \<times> bool" where
  "sendToWebhook_from c webhookUrl the_embed lastMessageId io w =
     (case truthy lastMessageId of
        Some message_id \<Rightarrow>
          if patch_ok io then (w, [HttpPatch webhookUrl message_id the_embed], True)
          else
            (case sendToWebhook_evict c webhookUrl (evict_write_ok io) w of
               (w1, effects1) \<Rightarrow>
                 (case sendToWebhook_post c webhookUrl the_embed io w1 of
                    (w2, effects2, r) \<Rightarrow>
                      (w2, HttpPatch webhookUrl message_id the_embed # effects1 @ effects2, r)))
      | None \<Rightarrow> sendToWebhook_post c webhookUrl the_embed io w)"

definition sendToWebhook ::
  "webhook_client \<Rightarrow> string \<Rightarrow> 'e \<Rightarrow> replies \<Rightarrow> world \<Rightarrow> world \<times> 'e effect list \<times> bool" where
  "sendToWebhook c webhookUrl the_embed io w =
     sendToWebhook_from c webhookUrl the_embed
       (map_of (heap w (webhook_client.lastMessageIds c)) webhookUrl) io w"

text \<open>
  \<^verbatim>\<open>sendDiscordNotification\<close>. \<^verbatim>\<open>webhookUrls.map(url => this.sendToWebhook(url, embed))\<close> starts
  every send before any request has been answered, so every send reads its
  \<open>lastMessageId\<close> from the Map as it is at the call; the sends then run to their end, here
  in the order of the list (the order in which the answers arrive is the network's).
  \<open>io i\<close> are the answers to the send of the destination at position \<open>i\<close>.
  \<^verbatim>\<open>sendToWebhook\<close> never rejects, so every settled result is fulfilled and \<^verbatim>\<open>successCount\<close>
  counts the sends that returned \<^verbatim>\<open>true\<close>. The result holds the returned boolean and the
  two numbers the function prints in its log line.
\<close>

record delivery_result =
  delivered :: bool
  successCount :: nat
  total :: nat

fun run_sends ::
  "webhook_client \<Rightarrow> 'e \<Rightarrow> (string \<times> string option \<times> replies) list \<Rightarrow> world \<Rightarrow>
   world \<times> 'e effect list \<times> bool list" where
  "run_sends c the_embed [] w = (w, [], [])"
| "run_sends c the_embed ((webhookUrl, lastMessageId, io) # rest) w =
     (case sendToWebhook_from c webhookUrl the_embed lastMessageId io w of
        (w1, effects1, r) \<Rightarrow>
          (case run_sends c the_embed rest w1 of
             (w2, effects2, results) \<Rightarrow> (w2, effects1 @ effects2, r # results)))"

definition started_sends ::
  "webhook_client \<Rightarrow> string list \<Rightarrow> (nat \<Rightarrow> replies) \<Rightarrow> world \<Rightarrow>
   (string \<times> string option \<times> replies) list" where
  "started_sends c webhookUrls io w =
     map (\<lambda>(i, url). (url, map_of (heap w (webhook_client.lastMessageIds c)) url, io i))
       (enumerate 0 webhookUrls)"

definition sendDiscordNotification ::
  "webhook_client \<Rightarrow> string list \<Rightarrow> 'e \<Rightarrow> (nat \<Rightarrow> replies) \<Rightarrow> world \<Rightarrow>
   world \<times> 'e effect list \<times> delivery_result" where
  "sendDiscordNotification c webhookUrls the_embed io w =
     (case run_sends c the_embed (started_sends c webhookUrls io w) w of
        (w', effects, results) \<Rightarrow>
          (let success_count = length (filter (\<lambda>r. r) results) in
           (w', effects,
            \<lparr>delivered = (success_count > 0), successCount = success_count,
             total = length webhookUrls\<rparr>)))"

text \<open>
  What one send returns, read off \<^verbatim>\<open>sendToWebhook\<close>: \<^verbatim>\<open>true\<close> when the recorded id is truthy and
  the PATCH resolves, or when the POST resolves.
\<close>

definition send_succeeds :: "string option \<Rightarrow> replies \<Rightarrow> bool" where
  "send_succeeds lst io = (truthy lst \<noteq> None \<and> patch_ok io \<or> post_reply io \<noteq> PostRejected)"

section \<open>Concrete destinations, worlds and replies\<close>

text \<open>
  A client that shares its Map (reference 0) with its storage, one recorded message id, and
  the file that records it.
\<close>

definition ex_urls :: "string list" where
  "ex_urls = [''https://discord.com/api/webhooks/1/aaa'', ''https://discord.com/api/webhooks/2/bbb'',
              ''https://discord.com/api/webhooks/3/ccc'']"

definition ex_storage :: message_storage where
  "ex_storage = \<lparr>messageIdsFile = ''message-ids.json'', lastMessageIds = 0\<rparr>"

definition ex_client :: webhook_client where
  "ex_client = \<lparr>messageStorage = Some ex_storage, lastMessageIds = 0\<rparr>"

definition ex_world :: world where
  "ex_world =
     \<lparr>heap = (\<lambda>r. if r = 0 then [(''https://discord.com/api/webhooks/1/aaa'', ''111'')] else []),
      disk = [''message-ids.json'' \<mapsto>
                JSON_stringify [(''https://discord.com/api/webhooks/1/aaa'', ''111'')]]\<rparr>"

definition ex_replies :: "nat \<Rightarrow> replies" where
  "ex_replies i =
     \<lparr>patch_ok = (i = 0), post_reply = PostRejected, evict_write_ok = True, install_write_ok = True\<rparr>"

text \<open>The file of a storage holds the JSON text of the storage's Map as it is now.\<close>

definition persisted :: "message_storage \<Rightarrow> world \<Rightarrow> bool" where
  "persisted ms w =
     (disk w (messageIdsFile ms) =
        Some (JSON_stringify (fromEntries (heap w (message_storage.lastMessageIds ms)))))"

definition ex_u1 :: string where
  "ex_u1 = ''https://discord.com/api/webhooks/1/aaa''"

definition ex_disk_fails :: replies where
  "ex_disk_fails =
     \<lparr>patch_ok = False, post_reply = PostRejected, evict_write_ok = False, install_write_ok = False\<rparr>"

definition ex_reposted :: replies where
  "ex_reposted =
     \<lparr>patch_ok = False, post_reply = PostResolved (Some ''222''), evict_write_ok = True,
      install_write_ok = True\<rparr>"

definition ex_no_id :: replies where
  "ex_no_id =
     \<lparr>patch_ok = False, post_reply = PostResolved None, evict_write_ok = True,
      install_write_ok = True\<rparr>"

section \<open>The cycle: \<^verbatim>\<open>checkServer\<close>\<close>

text \<open>
  \<^verbatim>\<open>AlpacaTracker.checkServer\<close> is an \<^verbatim>\<open>async\<close> function: an invocation that has passed the
  \<^verbatim>\<open>isRunning\<close> guard is suspended at one of its three \<^verbatim>\<open>await\<close>s until the awaited call
  settles, and triggers may fire in between. The points of suspension:
\<close>

datatype pc = AwaitFetch | AwaitProcess | AwaitErrorNotification

text \<open>
  The tracker: its fields that \<^verbatim>\<open>checkServer\<close> and \<^verbatim>\<open>processServerData\<close> read or write, the
  invocations of \<^verbatim>\<open>checkServer\<close> that are suspended, and the number of times
  \<^verbatim>\<open>serverFetcher.fetchServerInfo()\<close> has been invoked.
\<close>

record tracker =
  isRunning :: bool
  serverFetcher :: server_fetcher
  lastPlayerCount :: "nat option"
  lastNotificationTime :: "nat option"
  suspended :: "pc list"
  fetches :: nat

text \<open>
  What happens to the tracker: the scheduler calls \<^verbatim>\<open>checkServer()\<close>; the fetch of a suspended
  invocation settles (\<open>http\<close> gives the outcomes of its attempts); \<^verbatim>\<open>processServerData\<close>
  returns (with what \<^verbatim>\<open>sendDiscordNotification\<close> returned, \<^verbatim>\<open>Date.now()\<close> and the player count)
  or throws; \<^verbatim>\<open>sendErrorNotification\<close> settles.
\<close>

datatype ('e, 'd) event =
    Trigger
  | FetchSettled "nat \<Rightarrow> 'e + 'd"
  | ProcessReturned bool nat nat
  | ProcessThrew
  | ErrorNotificationSettled

text \<open>The constructor.\<close>

definition new_tracker :: "server_fetcher \<Rightarrow> tracker" where
  "new_tracker f =
     \<lparr>isRunning = False, serverFetcher = f, lastPlayerCount = None, lastNotificationTime = None,
      suspended = [], fetches = 0\<rparr>"

text \<open>The \<^verbatim>\<open>finally\<close> block.\<close>

definition checkServer_finally :: "tracker \<Rightarrow> tracker" where
  "checkServer_finally t = t\<lparr>isRunning := False\<rparr>"

text \<open>
  The \<^verbatim>\<open>catch\<close> block: with three consecutive fetch errors or more the invocation awaits
  \<^verbatim>\<open>sendErrorNotification\<close>, otherwise it goes on to \<^verbatim>\<open>finally\<close>.
\<close>

definition checkServer_catch :: "tracker \<Rightarrow> tracker" where
  "checkServer_catch t =
     (if getConsecutiveErrors (serverFetcher t) \<ge> 3
      then t\<lparr>suspended := suspended t @ [AwaitErrorNotification]\<rparr>
      else checkServer_finally t)"

text \<open>
  One event. \<open>None\<close>: no invocation is suspended at the \<^verbatim>\<open>await\<close> the event settles, so the
  event cannot happen.
\<close>

fun step :: "('e, 'd) event \<Rightarrow> tracker \<Rightarrow> tracker option" where
  "step Trigger t =
     Some (if isRunning t then t
           else t\<lparr>isRunning := True, suspended := suspended t @ [AwaitFetch],
                  fetches := fetches t + 1\<rparr>)"
| "step (FetchSettled http) t =
     (if AwaitFetch \<notin> set (suspended t) then None
      else
        (case fetchServerInfo (serverFetcher t) http 0 of
           (effects, Inr data, f') \<Rightarrow>
             Some (t\<lparr>serverFetcher := f',
                      suspended := remove1 AwaitFetch (suspended t) @ [AwaitProcess]\<rparr>)
         | (effects, Inl error, f') \<Rightarrow>
             Some (checkServer_catch
                     (t\<lparr>serverFetcher := f', suspended := remove1 AwaitFetch (suspended t)\<rparr>))))"
| "step (ProcessReturned success now playerCount) t =
     (if AwaitProcess \<notin> set (suspended t) then None
      else
        Some (checkServer_finally
                (t\<lparr>lastNotificationTime := (if success then Some now else lastNotificationTime t),
                   lastPlayerCount := Some playerCount,
                   suspended := remove1 AwaitProcess (suspended t)\<rparr>)))"
| "step ProcessThrew t =
     (if AwaitProcess \<notin> set (suspended t) then None
      else Some (checkServer_catch (t\<lparr>suspended := remove1 AwaitProcess (suspended t)\<rparr>)))"
| "step ErrorNotificationSettled t =
     (if AwaitErrorNotification \<notin> set (suspended t) then None
      else Some (checkServer_finally
                   (t\<lparr>suspended := remove1 AwaitErrorNotification (suspended t)\<rparr>)))"

fun run :: "('e, 'd) event list \<Rightarrow> tracker \<Rightarrow> tracker option" where
  "run [] t = Some t"
| "run (ev # evs) t = (case step ev t of None \<Rightarrow> None | Some t' \<Rightarrow> run evs t')"

text \<open>At most one invocation is past the guard, and \<^verbatim>\<open>isRunning\<close> says whether one is.\<close>

definition single_flight :: "tracker \<Rightarrow> bool" where
  "single_flight t = (length (suspended t) = (if isRunning t then 1 else 0))"

text \<open>The tracker after two triggers, and after the fetch of its one cycle has failed.\<close>

definition ex_running :: tracker where
  "ex_running =
     \<lparr>isRunning = True, serverFetcher = config_fetcher, lastPlayerCount = None,
      lastNotificationTime = None, suspended = [AwaitFetch], fetches = 1\<rparr>"

definition ex_failed :: tracker where
  "ex_failed =
     \<lparr>isRunning = False, serverFetcher = config_fetcher\<lparr>consecutiveErrors := 1\<rparr>,
      lastPlayerCount = None, lastNotificationTime = None, suspended = [], fetches = 1\<rparr>"

text \<open>
  The tracker while the data of a successful fetch is processed, after the processing has
  returned, and after it has thrown; and the tracker awaiting the error notification after
  three cycles in a row whose fetch failed, and after that notification has settled.
\<close>

definition ex_processing :: tracker where
  "ex_processing =
     \<lparr>isRunning = True, serverFetcher = config_fetcher, lastPlayerCount = None,
      lastNotificationTime = None, suspended = [AwaitProcess], fetches = 1\<rparr>"

definition ex_done :: tracker where
  "ex_done =
     \<lparr>isRunning = False, serverFetcher = config_fetcher, lastPlayerCount = Some 6,
      lastNotificationTime = Some 1700000000, suspended = [], fetches = 1\<rparr>"

definition ex_threw :: tracker where
  "ex_threw =
     \<lparr>isRunning = False, serverFetcher = config_fetcher, lastPlayerCount = None,
      lastNotificationTime = None, suspended = [], fetches = 1\<rparr>"

definition ex_notifying :: tracker where
  "ex_notifying =
     \<lparr>isRunning = True, serverFetcher = config_fetcher\<lparr>consecutiveErrors := 3\<rparr>,
      lastPlayerCount = None, lastNotificationTime = None, suspended = [AwaitErrorNotification],
      fetches = 3\<rparr>"

definition ex_notified :: tracker where
  "ex_notified =
     \<lparr>isRunning = False, serverFetcher = config_fetcher\<lparr>consecutiveErrors := 3\<rparr>,
      lastPlayerCount = None, lastNotificationTime = None, suspended = [], fetches = 3\<rparr>"

section \<open>JavaScript numbers\<close>

text \<open>
  A JavaScript number is a binary64 float. A finite number is a rational, and an
  arithmetic operation returns the exact result rounded to the nearest number with 53
  significant bits, ties to the one with an even last bit. The rounding is written out
  below for every exponent, so it is the rounding of binary64 on the results that are
  zero or of magnitude in the normal range (from \<open>2^-1022\<close> up to the overflow threshold);
  this covers every operation of the embed builder on integers of magnitude below
  \<open>2^53\<close>, which are numbers themselves.

  The number of bits of a positive integer.
\<close>

function bit_length :: "int \<Rightarrow> int" where
  "bit_length a = (if a \<le> 0 then 0 else 1 + bit_length (a div 2))"
  by pat_completeness auto

termination
  by (relation "measure nat") auto

text \<open>For \<open>x > 0\<close>, the exponent \<open>e\<close> with \<open>2^e \<le> x < 2^(e+1)\<close>.\<close>

definition ilog2 :: "rat \<Rightarrow> int" where
  "ilog2 x =
     (case quotient_of x of
        (a, b) \<Rightarrow>
          (let e = bit_length a - bit_length b in if x < 2 powi e then e - 1 else e))"

text \<open>The nearest integer, a tie going to the even one.\<close>

definition round_half_even :: "rat \<Rightarrow> int" where
  "round_half_even y =
     (let f = \<lfloor>y\<rfloor>; d = y - of_int f
      in if d < 1 / 2 then f else if 1 / 2 < d then f + 1 else if even f then f else f + 1)"

text \<open>Rounding to 53 significant bits: the last bit of \<open>x\<close> counts for \<open>2^(e-52)\<close>.\<close>

definition fl :: "rat \<Rightarrow> rat" where
  "fl x =
     (if x = 0 then 0
      else (let u = 2 powi (ilog2 \<bar>x\<bar> - 52)
            in sgn x * of_int (round_half_even (\<bar>x\<bar> / u)) * u))"

text \<open>The operators \<^verbatim>\<open>/\<close> and \<^verbatim>\<open>*\<close>, and \<^verbatim>\<open>Math.round\<close> (the nearest integer, a tie going up) and \<^verbatim>\<open>Math.floor\<close>, which are exact.\<close>

definition js_div :: "rat \<Rightarrow> rat \<Rightarrow> rat" where
  "js_div x y = fl (x / y)"

definition js_mul :: "rat \<Rightarrow> rat \<Rightarrow> rat" where
  "js_mul x y = fl (x * y)"

definition Math_round :: "rat \<Rightarrow> int" where
  "Math_round x = \<lfloor>x + 1 / 2\<rfloor>"

definition Math_floor :: "rat \<Rightarrow> int" where
  "Math_floor x = \<lfloor>x\<rfloor>"

section \<open>Embed builder\<close>

text \<open>The operator \<^verbatim>\<open>%\<close> on integers: the remainder has the sign of the dividend (and is exact).\<close>

definition js_rem :: "int \<Rightarrow> int \<Rightarrow> int" where
  "js_rem a b = sgn a * (\<bar>a\<bar> mod \<bar>b\<bar>)"

text \<open>
  \<^verbatim>\<open>formatTime(seconds)\<close>; \<open>None\<close> is an absent argument (\<^verbatim>\<open>undefined\<close>), for which
  \<^verbatim>\<open>!seconds\<close> holds as it does for 0.
\<close>

definition formatTime :: "int option \<Rightarrow> string" where
  "formatTime seconds =
     (case seconds of
        None \<Rightarrow> ''0s''
      | Some s \<Rightarrow>
          if s = 0 then ''0s''
          else
            (let hours = Math_floor (js_div (of_int s) 3600);
                 minutes = Math_floor (js_div (of_int (js_rem s 3600)) 60);
                 remainingSeconds = js_rem s 60;
                 parts = (if hours > 0 then [int_to_string hours @ ''h''] else []) @
                         (if minutes > 0 then [int_to_string minutes @ ''m''] else []);
                 parts = parts @
                         (if remainingSeconds > 0 \<or> parts = []
                          then [int_to_string remainingSeconds @ ''s''] else [])
             in join '' '' parts))"

text \<open>The error the embed builder can throw: \<^verbatim>\<open>String.prototype.repeat\<close> on a negative count.\<close>

datatype js_error = RangeError

text \<open>
  A player record and the server data as the API returns them; an absent field is \<open>None\<close>.
  Counts, scores and seconds are integers.
\<close>

record player =
  name :: "string option"
  score :: "int option"
  time :: "int option"

record server_data =
  numHumans :: "int option"
  maxClients :: "int option"
  serverIP :: "string option"
  humanData :: "player list option"

text \<open>\<^verbatim>\<open>x || d\<close> on a number (0 and an absent value are falsy) and on a string (so is the empty string).\<close>

definition number_or :: "int option \<Rightarrow> int \<Rightarrow> int" where
  "number_or x d = (case x of None \<Rightarrow> d | Some n \<Rightarrow> if n = 0 then d else n)"

definition string_or :: "string option \<Rightarrow> string \<Rightarrow> string" where
  "string_or x d = (case x of None \<Rightarrow> d | Some s \<Rightarrow> if s = [] then d else s)"

text \<open>
  \<^verbatim>\<open>String.prototype.trim\<close>: the white space and line terminators among the code units
  below 256 are tab, line feed, vertical tab, form feed, carriage return, space and the
  no-break space.
\<close>

definition is_whitespace :: "char \<Rightarrow> bool" where
  "is_whitespace c = (c \<in> set [CHR 0x09, CHR 0x0A, CHR 0x0B, CHR 0x0C, CHR 0x0D, CHR 0x20, CHR 0xA0])"

definition trim :: "string \<Rightarrow> string" where
  "trim s = rev (dropWhile is_whitespace (rev (dropWhile is_whitespace s)))"

text \<open>The filter callback \<^verbatim>\<open>p => p.name?.trim()\<close>, as a condition.\<close>

definition has_name :: "player \<Rightarrow> bool" where
  "has_name p = (case name p of None \<Rightarrow> False | Some n \<Rightarrow> trim n \<noteq> [])"

text \<open>The callback of \<^verbatim>\<open>players.sort\<close>.\<close>

definition comparePlayers :: "player \<Rightarrow> player \<Rightarrow> int" where
  "comparePlayers a b =
     (let scoreA = number_or (score a) 0; scoreB = number_or (score b) 0;
          timeA = number_or (time a) 0; timeB = number_or (time b) 0
      in if scoreB \<noteq> scoreA then scoreB - scoreA
         else if scoreA = 0 \<and> scoreB = 0 then timeB - timeA
         else timeA - timeB)"

text \<open>
  \<^verbatim>\<open>Array.prototype.sort\<close> with a comparison callback is stable and puts \<open>a\<close> before \<open>b\<close> when
  the callback is negative on \<open>(a, b)\<close>; for a callback that is a consistent order every
  stable sort returns the same array, and it is the one of the insertion sort below.
\<close>

fun sort_insert :: "('a \<Rightarrow> 'a \<Rightarrow> int) \<Rightarrow> 'a \<Rightarrow> 'a list \<Rightarrow> 'a list" where
  "sort_insert cmp x [] = [x]"
| "sort_insert cmp x (y # ys) = (if cmp x y \<le> 0 then x # y # ys else y # sort_insert cmp x ys)"

definition js_sort :: "('a \<Rightarrow> 'a \<Rightarrow> int) \<Rightarrow> 'a list \<Rightarrow> 'a list" where
  "js_sort cmp xs = foldr (sort_insert cmp) xs []"

text \<open>The locals of \<^verbatim>\<open>createServerEmbed\<close>.\<close>

definition playerCount :: "server_data \<Rightarrow> int" where
  "playerCount sd = number_or (numHumans sd) 0"

definition maxPlayers :: "server_data \<Rightarrow> int" where
  "maxPlayers sd = number_or (maxClients sd) 24"

definition capacityPercent :: "server_data \<Rightarrow> int" where
  "capacityPercent sd =
     Math_round (js_mul (js_div (of_int (playerCount sd)) (of_int (maxPlayers sd))) 100)"

definition progressBarLength :: int where
  "progressBarLength = 40"

definition filledBars :: "server_data \<Rightarrow> int" where
  "filledBars sd =
     Math_round (js_mul (js_div (of_int (playerCount sd)) (of_int (maxPlayers sd)))
       (of_int progressBarLength))"

text \<open>\<^verbatim>\<open>s.repeat(n)\<close> for an integer \<open>n\<close>.\<close>

definition repeat :: "string \<Rightarrow> int \<Rightarrow> js_error + string" where
  "repeat s n = (if n < 0 then Inl RangeError else Inr (concat (replicate (nat n) s)))"

text \<open>
  The two glyphs of the bar, U+2588 and U+2591, each written as the three bytes of its
  UTF-8 encoding (in JavaScript each is one code unit).
\<close>

definition full_block :: string where
  "full_block = [CHR 0xE2, CHR 0x96, CHR 0x88]"

definition light_shade :: string where
  "light_shade = [CHR 0xE2, CHR 0x96, CHR 0x91]"

definition progressBar :: "server_data \<Rightarrow> js_error + string" where
  "progressBar sd =
     (case repeat full_block (filledBars sd) of
        Inl e \<Rightarrow> Inl e
      | Inr filled \<Rightarrow>
          (case repeat light_shade (progressBarLength - filledBars sd) of
             Inl e \<Rightarrow> Inl e
           | Inr unfilled \<Rightarrow> Inr (filled @ unfilled)))"

text \<open>\<^verbatim>\<open>serverData.humanData?.filter?.(p => p.name?.trim()) || []\<close>.\<close>

definition players :: "server_data \<Rightarrow> player list" where
  "players sd = (case humanData sd of None \<Rightarrow> [] | Some ps \<Rightarrow> filter has_name ps)"

definition sortedPlayers :: "server_data \<Rightarrow> player list" where
  "sortedPlayers sd = js_sort comparePlayers (players sd)"

text \<open>The embed object.\<close>

record embed_field =
  field_name :: string
  field_value :: string
  inline :: bool

record embed_footer =
  footer_text :: string
  icon_url :: string

record embed =
  title :: string
  color :: int
  embed_fields :: "embed_field list"
  timestamp :: string
  footer :: embed_footer

text \<open>The three columns pushed when there are named players.\<close>

definition player_table :: "player list \<Rightarrow> embed_field list" where
  "player_table ps =
     [\<lparr>field_name = ''Name'',
       field_value = join [CHR 0x0A] (map (\<lambda>p. string_or (name p) []) ps), inline = True\<rparr>,
      \<lparr>field_name = ''Score'',
       field_value = join [CHR 0x0A] (map (\<lambda>p. int_to_string (number_or (score p) 0)) ps),
       inline = True\<rparr>,
      \<lparr>field_name = ''Time Played'',
       field_value = join [CHR 0x0A] (map (\<lambda>p. formatTime (Some (number_or (time p) 0))) ps),
       inline = True\<rparr>]"

text \<open>
  The first two fields, and \<^verbatim>\<open>createServerEmbed\<close>. \<open>nextRefresh\<close> is what
  \<^verbatim>\<open>this.getNextRefreshTimestamp(pollInterval)\<close> returned and \<open>now_iso\<close> what
  \<^verbatim>\<open>new Date().toISOString()\<close> returned. This is \<^verbatim>\<open>createServerEmbed\<close> called with a
  \<^verbatim>\<open>pollInterval\<close> that is a string. Called without one, as \<^verbatim>\<open>processServerData\<close> of
  \<^verbatim>\<open>tracker.js\<close> calls it, \<^verbatim>\<open>pollInterval.split\<close> throws a \<^verbatim>\<open>TypeError\<close> when the second
  field is built, and no embed is returned: in the cycle below this is the event of
  \<^verbatim>\<open>processServerData\<close> throwing.
\<close>

definition status_fields :: "server_data \<Rightarrow> string \<Rightarrow> int \<Rightarrow> embed_field list" where
  "status_fields serverData bar nextRefresh =
     [\<lparr>field_name = [], field_value = bar, inline = False\<rparr>,
      \<lparr>field_name = ''Online Players'',
       field_value =
         ''**'' @ int_to_string (playerCount serverData) @ ''/'' @
         int_to_string (maxPlayers serverData) @ ''** ('' @
         int_to_string (capacityPercent serverData) @ ''%) - Refreshing <t:'' @
         int_to_string nextRefresh @ '':R>'' @ [CHR 0x0A] @
         ''[Join Now](https://raccoonlagoon.com/connect/'' @
         string_or (serverIP serverData) ''Unknown'' @ '')'',
       inline = False\<rparr>]"

definition createServerEmbed :: "server_data \<Rightarrow> int \<Rightarrow> string \<Rightarrow> js_error + embed" where
  "createServerEmbed serverData nextRefresh now_iso =
     (case progressBar serverData of
        Inl e \<Rightarrow> Inl e
      | Inr bar \<Rightarrow>
          Inr \<lparr>title = [], color = 0xf8ab27,
               embed_fields =
                 status_fields serverData bar nextRefresh @
                 (if players serverData \<noteq> [] then player_table (sortedPlayers serverData) else []),
               timestamp = now_iso,
               footer = \<lparr>footer_text = ''api.raccoonlagoon.com'',
                         icon_url = ''https://static.raccoonlagoon.com/images/raccoon_lagoon.png''\<rparr>\<rparr>)"

text \<open>Server data with six players, two of them without a name.\<close>

definition ex_players :: "player list" where
  "ex_players =
     [\<lparr>name = Some ''ann'', score = Some 0, time = Some 10\<rparr>,
      \<lparr>name = Some ''bob'', score = Some 0, time = Some 20\<rparr>,
      \<lparr>name = Some ''   '', score = Some 9, time = Some 7\<rparr>,
      \<lparr>name = Some ''cyd'', score = Some 5, time = Some 3\<rparr>,
      \<lparr>name = None, score = Some 8, time = Some 2\<rparr>,
      \<lparr>name = Some ''dee'', score = Some 5, time = Some 1\<rparr>]"

definition ex_server :: server_data where
  "ex_server =
     \<lparr>numHumans = Some 6, maxClients = Some 24, serverIP = Some ''104.153.104.12:27015'',
      humanData = Some ex_players\<rparr>"

text \<open>
  What \<^const>\<open>comparePlayers\<close> orders by: it is at most 0 on \<open>(a, b)\<close> exactly when the rank
  of \<open>a\<close> is at most the rank of \<open>b\<close> in the lexicographic order of pairs.
\<close>

definition sort_rank :: "player \<Rightarrow> int \<times> int" where
  "sort_rank p =
     (- number_or (score p) 0,
      if number_or (score p) 0 = 0 then - number_or (time p) 0 else number_or (time p) 0)"

text \<open>The four players of the specification's example, with names.\<close>

definition spec_players :: "player list" where
  "spec_players =
     [\<lparr>name = Some ''p1'', score = Some 0, time = Some 10\<rparr>,
      \<lparr>name = Some ''p2'', score = Some 0, time = Some 20\<rparr>,
      \<lparr>name = Some ''p3'', score = Some 5, time = Some 3\<rparr>,
      \<lparr>name = Some ''p4'', score = Some 5, time = Some 1\<rparr>]"

text \<open>A server with these four players.\<close>

definition spec_server :: server_data where
  "spec_server =
     \<lparr>numHumans = Some 4, maxClients = Some 24, serverIP = Some ''104.153.104.12:27015'',
      humanData = Some spec_players\<rparr>"

text \<open>
  The capacity percentage in the words of the specification,
  \<^verbatim>\<open>round(100 * humanCount / max(maxCapacity, 1))\<close>, in exact arithmetic; it is compared
  with \<^const>\<open>capacityPercent\<close> below.
\<close>

definition spec_capacityPercent :: "int \<Rightarrow> int \<Rightarrow> int" where
  "spec_capacityPercent humanCount maxCapacity =
     Math_round (100 * of_int humanCount / of_int (max maxCapacity 1))"

text \<open>Server data with a capacity of 0, and with 23 players of 40.\<close>

definition ex_empty_capacity :: server_data where
  "ex_empty_capacity = \<lparr>numHumans = Some 12, maxClients = Some 0, serverIP = None, humanData = None\<rparr>"

definition ex_tie :: server_data where
  "ex_tie = \<lparr>numHumans = Some 23, maxClients = Some 40, serverIP = None, humanData = None\<rparr>"

section \<open>Reading the message store\<close>

text \<open>
  \<^verbatim>\<open>JSON.parse\<close>, on the texts that are an object whose members are strings: this is what
  \<^verbatim>\<open>saveMessageIds\<close> writes. On any other text the model gives \<open>None\<close>, as it does for a
  text that is not JSON, on which \<^verbatim>\<open>JSON.parse\<close> throws a \<^verbatim>\<open>SyntaxError\<close>. A string is a
  list of characters with codes below 256, so an escape \<^verbatim>\<open>\uXXXX\<close> of a higher code has no
  value in the model.

  The tokens of such a text.
\<close>

datatype token = LBrace | RBrace | Colon | Comma | Str string

text \<open>The value of a hexadecimal digit, of four of them, and of a one-letter escape.\<close>

definition hex_value :: "char \<Rightarrow> nat option" where
  "hex_value c =
     (if c \<in> set ''0123456789'' then Some (of_char c - 48)
      else if c \<in> set ''abcdef'' then Some (of_char c - 87)
      else if c \<in> set ''ABCDEF'' then Some (of_char c - 55)
      else None)"

definition hex4 :: "string \<Rightarrow> nat option" where
  "hex4 s =
     (case map hex_value s of
        [Some a, Some b, Some c, Some d] \<Rightarrow> Some (((a * 16 + b) * 16 + c) * 16 + d)
      | _ \<Rightarrow> None)"

definition unescape :: "char \<Rightarrow> char option" where
  "unescape e =
     (if e = CHR 0x22 then Some (CHR 0x22)
      else if e = CHR 0x5C then Some (CHR 0x5C)
      else if e = CHR ''/'' then Some (CHR ''/'')
      else if e = CHR ''b'' then Some (CHR 0x08)
      else if e = CHR ''f'' then Some (CHR 0x0C)
      else if e = CHR ''n'' then Some (CHR 0x0A)
      else if e = CHR ''r'' then Some (CHR 0x0D)
      else if e = CHR ''t'' then Some (CHR 0x09)
      else None)"

text \<open>
  The tokens of a text. The first argument is \<open>None\<close> between tokens and, within a string,
  the characters read so far, last first. White space between tokens is skipped; within a
  string a character below \<^verbatim>\<open>0x20\<close> is refused.
\<close>

function lex_from :: "string option \<Rightarrow> string \<Rightarrow> token list option" where
  "lex_from None [] = Some []"
| "lex_from None (c # cs) =
     (if c \<in> set [CHR 0x20, CHR 0x09, CHR 0x0A, CHR 0x0D] then lex_from None cs
      else if c = CHR ''{'' then map_option (Cons LBrace) (lex_from None cs)
      else if c = CHR ''}'' then map_option (Cons RBrace) (lex_from None cs)
      else if c = CHR '':'' then map_option (Cons Colon) (lex_from None cs)
      else if c = CHR '','' then map_option (Cons Comma) (lex_from None cs)
      else if c = CHR 0x22 then lex_from (Some []) cs
      else None)"
| "lex_from (Some acc) [] = None"
| "lex_from (Some acc) (c # cs) =
     (if c = CHR 0x22 then map_option (Cons (Str (rev acc))) (lex_from None cs)
      else if c = CHR 0x5C then
        (case cs of
           [] \<Rightarrow> None
         | e # rest \<Rightarrow>
             if e = CHR ''u'' then
               (case hex4 (take 4 rest) of
                  None \<Rightarrow> None
                | Some n \<Rightarrow> if n < 256 then lex_from (Some (char_of n # acc)) (drop 4 rest) else None)
             else
               (case unescape e of
                  None \<Rightarrow> None
                | Some d \<Rightarrow> lex_from (Some (d # acc)) rest))
      else if of_char c < (32::nat) then None
      else lex_from (Some (c # acc)) cs)"
  by pat_completeness auto

termination
  by (relation "measure (\<lambda>(m, s). length s)") auto

text \<open>The members after the opening brace, up to the closing one, which ends the text.\<close>

fun parse_members :: "token list \<Rightarrow> (string \<times> string) list option" where
  "parse_members [Str k, Colon, Str v, RBrace] = Some [(k, v)]"
| "parse_members (Str k # Colon # Str v # Comma # rest) =
     (case parse_members rest of None \<Rightarrow> None | Some members \<Rightarrow> Some ((k, v) # members))"
| "parse_members tokens = None"

definition parse_object :: "token list \<Rightarrow> (string \<times> string) list option" where
  "parse_object tokens =
     (case tokens of
        [LBrace, RBrace] \<Rightarrow> Some []
      | LBrace # rest \<Rightarrow> parse_members rest
      | _ \<Rightarrow> None)"

text \<open>
  The object of the text: its members are defined one by one, so that a key given twice
  keeps its first place and its last value.
\<close>

definition JSON_parse :: "string \<Rightarrow> js_object option" where
  "JSON_parse text =
     (case lex_from None text of
        None \<Rightarrow> None
      | Some tokens \<Rightarrow>
          (case parse_object tokens of
             None \<Rightarrow> None
           | Some members \<Rightarrow> Some (fromEntries members)))"

text \<open>
  \<^verbatim>\<open>loadMessageIds()\<close>. When the file exists it is read and parsed, and every entry of the
  parsed object is set in the Map of the storage, which keeps the entries it had under
  other keys. \<open>read_ok\<close> tells whether \<^verbatim>\<open>fs.readFileSync\<close> succeeds; when it or
  \<^verbatim>\<open>JSON.parse\<close> throws, the \<^verbatim>\<open>catch\<close> logs a warning and the Map is as it was.
\<close>

definition loadMessageIds :: "message_storage \<Rightarrow> bool \<Rightarrow> world \<Rightarrow> world" where
  "loadMessageIds ms read_ok w =
     (case disk w (messageIdsFile ms) of
        None \<Rightarrow> w
      | Some data \<Rightarrow>
          if \<not> read_ok then w
          else
            (case JSON_parse data of
               None \<Rightarrow> w
             | Some messageIds \<Rightarrow>
                 w\<lparr>heap := (heap w)
                      (message_storage.lastMessageIds ms :=
                         fold (\<lambda>(webhookUrl, messageId) m. AList.update webhookUrl messageId m)
                           (own_entries messageIds)
                           (heap w (message_storage.lastMessageIds ms)))\<rparr>))"

text \<open>The tokens of the members of an object, as \<^verbatim>\<open>JSON.stringify\<close> writes them.\<close>

fun member_tokens :: "(string \<times> string) list \<Rightarrow> token list" where
  "member_tokens [] = []"
| "member_tokens [(k, v)] = [Str k, Colon, Str v]"
| "member_tokens ((k, v) # e # es) = Str k # Colon # Str v # Comma # member_tokens (e # es)"

text \<open>
  A Map with keys that are array indices, and with characters that \<^verbatim>\<open>JSON.stringify\<close>
  escapes; a world where the first storage holds it and no file exists yet; and the
  storage of a restarted process, on the same file, with a new Map.
\<close>

definition ex_ids :: js_map where
  "ex_ids = [(''https://discord.com/api/webhooks/1/aaa'', ''111''),
             (''10'', ''line'' @ [CHR 0x0A] @ ''break''),
             (''9'', ''a \"quoted\" name''),
             (''back'' @ [CHR 0x5C] @ ''slash'', [CHR 0x01, CHR 0xE2])]"

definition ex_ids_world :: world where
  "ex_ids_world = \<lparr>heap = (\<lambda>r. if r = 0 then ex_ids else []), disk = Map.empty\<rparr>"

definition ex_restarted :: message_storage where
  "ex_restarted = \<lparr>messageIdsFile = ''message-ids.json'', lastMessageIds = 1\<rparr>"

chapter \<open>Properties\<close>

section \<open>Properties of the server fetcher\<close>

declare fetchServerInfo.simps [simp del]

lemma fetch_all_fail:
  "retryCount \<le> maxRetries f \<Longrightarrow> \<forall>n. retryCount \<le> n \<and> n \<le> maxRetries f \<longrightarrow> isl (http n) \<Longrightarrow>
   fetchServerInfo f http retryCount = (effects, r, f') \<Longrightarrow>
   http_calls effects = maxRetries f + 1 - retryCount \<and> r = http (maxRetries f) \<and>
   f' = f\<lparr>consecutiveErrors := consecutiveErrors f + 1\<rparr>"
proof (induction f http retryCount arbitrary: effects r f' rule: fetchServerInfo.induct)
  case (1 f http retryCount)
  from "1.prems"(1,2) obtain error where err: "http retryCount = Inl error"
    by (cases "http retryCount") auto
  show ?case
  proof (cases "retryCount < maxRetries f")
    case True
    obtain effects' r' f'' where rec: "fetchServerInfo f http (retryCount + 1) = (effects', r', f'')"
      by (cases "fetchServerInfo f http (retryCount + 1)") auto
    have "http_calls effects' = maxRetries f + 1 - (retryCount + 1) \<and> r' = http (maxRetries f) \<and>
          f'' = f\<lparr>consecutiveErrors := consecutiveErrors f + 1\<rparr>"
      using "1.IH" [OF err True _ _ rec] True "1.prems"(2) by simp
    moreover have "effects = HttpGet (apiUrl f) # Sleep (retryDelay f) # effects' \<and> r = r' \<and> f' = f''"
      using "1.prems"(3) err True rec by (subst (asm) fetchServerInfo.simps) simp
    ultimately show ?thesis using True by (simp add: http_calls_def)
  next
    case False
    with "1.prems"(1) have eq: "retryCount = maxRetries f" by simp
    from "1.prems"(3) err False show ?thesis
      by (subst (asm) fetchServerInfo.simps) (auto simp: http_calls_def eq)
  qed
qed

lemma fetch_success_resets:
  "retryCount \<le> k \<Longrightarrow> k \<le> maxRetries f \<Longrightarrow> http k = Inr data \<Longrightarrow>
   \<forall>n. retryCount \<le> n \<and> n < k \<longrightarrow> isl (http n) \<Longrightarrow>
   fetchServerInfo f http retryCount = (effects, r, f') \<Longrightarrow>
   http_calls effects = k + 1 - retryCount \<and> r = Inr data \<and> f' = f\<lparr>consecutiveErrors := 0\<rparr>"
proof (induction f http retryCount arbitrary: effects r f' rule: fetchServerInfo.induct)
  case (1 f http retryCount)
  show ?case
  proof (cases "retryCount = k")
    case True
    with "1.prems"(3,5) show ?thesis
      by (subst (asm) fetchServerInfo.simps) (auto simp: http_calls_def)
  next
    case False
    with "1.prems"(1) have lt: "retryCount < k" by simp
    with "1.prems"(4) obtain error where err: "http retryCount = Inl error"
      by (cases "http retryCount") auto
    from lt "1.prems"(2) have more: "retryCount < maxRetries f" by simp
    obtain effects' r' f'' where rec: "fetchServerInfo f http (retryCount + 1) = (effects', r', f'')"
      by (cases "fetchServerInfo f http (retryCount + 1)") auto
    have "http_calls effects' = k + 1 - (retryCount + 1) \<and> r' = Inr data \<and>
          f'' = f\<lparr>consecutiveErrors := 0\<rparr>"
      using "1.IH" [OF err more _ "1.prems"(2,3) _ rec] lt "1.prems"(4) by simp
    moreover have "effects = HttpGet (apiUrl f) # Sleep (retryDelay f) # effects' \<and> r = r' \<and> f' = f''"
      using "1.prems"(5) err more rec by (subst (asm) fetchServerInfo.simps) simp
    ultimately show ?thesis using lt by (simp add: http_calls_def)
  qed
qed

text \<open>
  Claim C3. With \<^verbatim>\<open>maxRetries = 3\<close>, when every HTTP attempt fails, \<^verbatim>\<open>fetchServerInfo()\<close>
  invokes the endpoint exactly 4 times, throws the error of the last attempt and leaves
  the consecutive-failure counter one higher; when the attempt number \<open>k \<le> 3\<close> is the
  first to succeed, the call returns its data after \<open>k + 1\<close> invocations and the counter
  is zero.
\<close>

theorem C3_fetch_retry:
  fixes http :: "nat \<Rightarrow> 'e + 'd"
  assumes "maxRetries f = 3"
    and "fetchServerInfo f http 0 = (effects, r, f')"
  shows "((\<forall>n\<le>3. isl (http n)) \<longrightarrow>
            http_calls effects = 4 \<and> r = http 3 \<and> isl r \<and>
            consecutiveErrors f' = consecutiveErrors f + 1) \<and>
         (\<forall>k data. k \<le> 3 \<and> http k = Inr data \<and> (\<forall>n<k. isl (http n)) \<longrightarrow>
            http_calls effects = k + 1 \<and> r = Inr data \<and> consecutiveErrors f' = 0)"
proof -
  have "http_calls effects = 4 \<and> r = http 3 \<and> isl r \<and>
        consecutiveErrors f' = consecutiveErrors f + 1"
    if fails: "\<forall>n\<le>3. isl (http n)"
  proof -
    from fails have "\<forall>n. 0 \<le> n \<and> n \<le> maxRetries f \<longrightarrow> isl (http n)"
      using assms(1) by simp
    from fetch_all_fail [OF _ this assms(2)] assms(1) fails show ?thesis
      by simp
  qed
  moreover have "http_calls effects = k + 1 \<and> r = Inr data \<and> consecutiveErrors f' = 0"
    if h: "k \<le> 3 \<and> http k = Inr data \<and> (\<forall>n<k. isl (http n))" for k data
  proof -
    from h have "\<forall>n. 0 \<le> n \<and> n < k \<longrightarrow> isl (http n)" by simp
    from fetch_success_resets [OF _ _ _ this assms(2), of data] h assms(1) show ?thesis
      by simp
  qed
  ultimately show ?thesis by blast
qed

theorem C3_fetch_retry_witness:
  "http_calls (fst (fetchServerInfo config_fetcher (\<lambda>n. Inl ''ETIMEDOUT'' :: string + string) 0)) = 4 \<and>
   fst (snd (fetchServerInfo config_fetcher (\<lambda>n. Inl ''ETIMEDOUT'' :: string + string) 0)) = Inl ''ETIMEDOUT'' \<and>
   consecutiveErrors (snd (snd (fetchServerInfo config_fetcher (\<lambda>n. Inl ''ETIMEDOUT'' :: string + string) 0))) = 1 \<and>
   http_calls (fst (fetchServerInfo (config_fetcher\<lparr>consecutiveErrors := 2\<rparr>)
      (\<lambda>n. if n < 2 then Inl ''ETIMEDOUT'' else Inr ''data'' :: string + string) 0)) = 3 \<and>
   consecutiveErrors (snd (snd (fetchServerInfo (config_fetcher\<lparr>consecutiveErrors := 2\<rparr>)
      (\<lambda>n. if n < 2 then Inl ''ETIMEDOUT'' else Inr ''data'' :: string + string) 0))) = 0"
proof -
  let ?fail = "\<lambda>n::nat. Inl ''ETIMEDOUT'' :: string + string"
  let ?late = "\<lambda>n::nat. if n < 2 then Inl ''ETIMEDOUT'' else Inr ''data'' :: string + string"
  let ?g = "config_fetcher\<lparr>consecutiveErrors := 2\<rparr>"
  have m: "maxRetries config_fetcher = 3" "maxRetries ?g = 3"
    by (simp_all add: config_fetcher_def)
  have e1: "fetchServerInfo config_fetcher ?fail 0 =
      (fst (fetchServerInfo config_fetcher ?fail 0),
       fst (snd (fetchServerInfo config_fetcher ?fail 0)),
       snd (snd (fetchServerInfo config_fetcher ?fail 0)))"
    by simp
  have e2: "fetchServerInfo ?g ?late 0 =
      (fst (fetchServerInfo ?g ?late 0), fst (snd (fetchServerInfo ?g ?late 0)),
       snd (snd (fetchServerInfo ?g ?late 0)))"
    by simp
  have c0: "consecutiveErrors config_fetcher = 0" by (simp add: config_fetcher_def)
  from C3_fetch_retry [OF m(1) e1] c0
  have a: "http_calls (fst (fetchServerInfo config_fetcher ?fail 0)) = 4 \<and>
           fst (snd (fetchServerInfo config_fetcher ?fail 0)) = Inl ''ETIMEDOUT'' \<and>
           consecutiveErrors (snd (snd (fetchServerInfo config_fetcher ?fail 0))) = 1"
    by simp
  have "(2::nat) \<le> 3 \<and> ?late 2 = Inr ''data'' \<and> (\<forall>n<2. isl (?late n))" by simp
  with C3_fetch_retry [OF m(2) e2]
  have b: "http_calls (fst (fetchServerInfo ?g ?late 0)) = 2 + 1 \<and>
           consecutiveErrors (snd (snd (fetchServerInfo ?g ?late 0))) = 0"
    by blast
  from a b show ?thesis by simp
qed

section \<open>Properties of the webhook client\<close>

lemma saveMessageIds_heap:
  "saveMessageIds ms ok w = (w', fx) \<Longrightarrow> heap w' = heap w"
  by (auto simp: saveMessageIds_def Let_def split: if_splits)

lemma send_post_result:
  "sendToWebhook_post c url e io w = (w', fx, r) \<Longrightarrow>
   r = (post_reply io \<noteq> PostRejected) \<and> HttpPost url e \<in> set fx"
  by (auto simp: sendToWebhook_post_def Let_def setMessageId_def
           split: post_reply.splits option.splits prod.splits)

lemma send_from_result:
  "sendToWebhook_from c url e lst io w = (w', fx, r) \<Longrightarrow>
   r = send_succeeds lst io \<and>
   ((\<exists>m. HttpPatch url m e \<in> set fx) \<or> HttpPost url e \<in> set fx)"
  by (auto simp: sendToWebhook_from_def send_succeeds_def
           split: option.splits if_splits prod.splits dest: send_post_result)

lemma run_sends_results:
  "run_sends c e sends w = (w', fx, rs) \<Longrightarrow>
   rs = map (\<lambda>(url, lst, io). send_succeeds lst io) sends \<and>
   (\<forall>(url, lst, io) \<in> set sends. (\<exists>m. HttpPatch url m e \<in> set fx) \<or> HttpPost url e \<in> set fx)"
proof (induction sends arbitrary: w w' fx rs)
  case Nil
  then show ?case by simp
next
  case (Cons s sends)
  obtain url lst io where s: "s = (url, lst, io)" by (cases s) auto
  obtain w1 fx1 r where one: "sendToWebhook_from c url e lst io w = (w1, fx1, r)"
    by (cases "sendToWebhook_from c url e lst io w") auto
  obtain w2 fx2 rs2 where more: "run_sends c e sends w1 = (w2, fx2, rs2)"
    by (cases "run_sends c e sends w1") auto
  from Cons.prems s one more have eq: "w' = w2" "fx = fx1 @ fx2" "rs = r # rs2" by auto
  from Cons.IH [OF more] send_from_result [OF one] show ?case
    unfolding s eq by auto
qed

lemma started_sends_eq:
  "started_sends c urls io w =
   map (\<lambda>i. (urls ! i, map_of (heap w (webhook_client.lastMessageIds c)) (urls ! i), io i)) [0..<length urls]"
  by (rule nth_equalityI) (simp_all add: started_sends_def nth_enumerate_eq)

lemma sendToWebhook_result:
  "snd (snd (sendToWebhook c url e io w)) =
   send_succeeds (map_of (heap w (webhook_client.lastMessageIds c)) url) io"
proof -
  obtain w' fx r where "sendToWebhook_from c url e (map_of (heap w (webhook_client.lastMessageIds c)) url) io w = (w', fx, r)"
    using prod_cases3 by blast
  then show ?thesis using send_from_result by (fastforce simp: sendToWebhook_def)
qed

lemma one_of_three:
  "(\<exists>!i. i < (3::nat) \<and> P i) \<Longrightarrow> length (filter P [0..<3]) = 1"
proof -
  assume u: "\<exists>!i. i < (3::nat) \<and> P i"
  have three: "[0..<3] = [0, 1, 2::nat]" by (simp add: upt_rec)
  have lt: "(0::nat) < 3" "(1::nat) < 3" "(2::nat) < 3" by simp_all
  from u obtain i where i: "i < 3" "P i" and uniq: "\<And>j. j < 3 \<Longrightarrow> P j \<Longrightarrow> j = i" by blast
  from i(1) consider "i = 0" | "i = 1" | "i = 2" by linarith
  then show ?thesis
  proof cases
    case 1
    with uniq [of 1] uniq [of 2] i have "P 0" "\<not> P 1" "\<not> P 2" by auto
    then show ?thesis by (simp add: three)
  next
    case 2
    with uniq [of 0] uniq [of 2] i have "\<not> P 0" "P 1" "\<not> P 2" by auto
    then show ?thesis by (simp add: three)
  next
    case 3
    with uniq [of 0] uniq [of 1] i have "\<not> P 0" "\<not> P 1" "P 2" by auto
    then show ?thesis by (simp add: three)
  qed
qed

text \<open>
  Claim C2. \<^verbatim>\<open>sendDiscordNotification\<close> attempts every destination of the list (each one has its
  PATCH or its POST among the effects, whatever the other sends returned); \<^verbatim>\<open>successCount\<close>
  is the number of destinations whose own send, with its own replies, returns \<^verbatim>\<open>true\<close>; the
  call reports success exactly when \<^verbatim>\<open>successCount > 0\<close>; with three destinations of which
  exactly one succeeds the result is success with \<^verbatim>\<open>successCount = 1\<close> and \<^verbatim>\<open>total = 3\<close>.
\<close>

theorem C2_partial_delivery:
  assumes "sendDiscordNotification c urls e io w = (w', fx, res)"
  shows "total res = length urls \<and>
         successCount res =
           length (filter (\<lambda>i. snd (snd (sendToWebhook c (urls ! i) e (io i) w))) [0..<length urls]) \<and>
         (delivered res \<longleftrightarrow> 0 < successCount res) \<and>
         (\<forall>i<length urls. (\<exists>m. HttpPatch (urls ! i) m e \<in> set fx) \<or> HttpPost (urls ! i) e \<in> set fx) \<and>
         (length urls = 3 \<and> (\<exists>!i. i < 3 \<and> snd (snd (sendToWebhook c (urls ! i) e (io i) w))) \<longrightarrow>
            delivered res \<and> successCount res = 1 \<and> total res = 3)"
proof -
  let ?r = "webhook_client.lastMessageIds c"
  obtain rs where run: "run_sends c e (started_sends c urls io w) w = (w', fx, rs)"
    and res: "res = \<lparr>delivered = (length (filter (\<lambda>r. r) rs) > 0),
                     successCount = length (filter (\<lambda>r. r) rs), total = length urls\<rparr>"
    using assms by (auto simp: sendDiscordNotification_def Let_def split: prod.splits)
  from run_sends_results [OF run]
  have rs: "rs = map (\<lambda>i. send_succeeds (map_of (heap w ?r) (urls ! i)) (io i)) [0..<length urls]"
    and att: "\<forall>(url, lst, io) \<in> set (started_sends c urls io w).
                (\<exists>m. HttpPatch url m e \<in> set fx) \<or> HttpPost url e \<in> set fx"
    by (simp_all add: started_sends_eq o_def)
  have count: "successCount res =
     length (filter (\<lambda>i. snd (snd (sendToWebhook c (urls ! i) e (io i) w))) [0..<length urls])"
    by (simp add: res rs filter_map o_def sendToWebhook_result)
  have attempted: "\<forall>i<length urls. (\<exists>m. HttpPatch (urls ! i) m e \<in> set fx) \<or> HttpPost (urls ! i) e \<in> set fx"
    using att by (force simp: started_sends_eq)
  have three: "delivered res \<and> successCount res = 1 \<and> total res = 3"
    if "length urls = 3 \<and> (\<exists>!i. i < 3 \<and> snd (snd (sendToWebhook c (urls ! i) e (io i) w)))"
  proof -
    from that one_of_three [of "\<lambda>i. snd (snd (sendToWebhook c (urls ! i) e (io i) w))"] count
    have "successCount res = 1" by simp
    moreover have "delivered res \<longleftrightarrow> 0 < successCount res" by (simp add: res)
    ultimately show ?thesis using that by (simp add: res)
  qed
  show ?thesis using count attempted three by (simp add: res)
qed

text \<open>Three destinations, the first edits its message, the two others are rejected.\<close>

theorem C2_partial_delivery_witness:
  "delivered (snd (snd (sendDiscordNotification ex_client ex_urls ''embed'' ex_replies ex_world))) \<and>
   successCount (snd (snd (sendDiscordNotification ex_client ex_urls ''embed'' ex_replies ex_world))) = 1 \<and>
   total (snd (snd (sendDiscordNotification ex_client ex_urls ''embed'' ex_replies ex_world))) = 3"
proof -
  let ?run = "sendDiscordNotification ex_client ex_urls ''embed'' ex_replies ex_world"
  let ?ok = "\<lambda>i. snd (snd (sendToWebhook ex_client (ex_urls ! i) ''embed'' (ex_replies i) ex_world))"
  have oks: "?ok 0" "\<not> ?ok 1" "\<not> ?ok 2"
    by (simp_all add: sendToWebhook_result send_succeeds_def ex_replies_def ex_client_def
        ex_world_def ex_urls_def truthy_def)
  have "\<exists>!i. i < 3 \<and> ?ok i"
  proof (intro ex1I [of _ 0] conjI)
    fix i assume i: "i < 3 \<and> ?ok i"
    then consider "i = 0" | "i = 1" | "i = 2" by linarith
    then show "i = 0" using i oks by cases auto
  qed (simp_all add: oks)
  moreover have "length ex_urls = 3" by (simp add: ex_urls_def)
  moreover have "?run = (fst ?run, fst (snd ?run), snd (snd ?run))" by simp
  ultimately show ?thesis using C2_partial_delivery [of ex_client ex_urls "''embed''" ex_replies ex_world]
    by blast
qed

lemma evict_props:
  assumes "sendToWebhook_evict c url ok w = (w1, fx1)"
  shows "map_of (heap w1 (webhook_client.lastMessageIds c)) url = None"
    and "\<And>k. k \<noteq> url \<Longrightarrow> map_of (heap w1 r) k = map_of (heap w r) k"
    and "\<And>ms. messageStorage c = Some ms \<Longrightarrow> ok \<Longrightarrow>
           map_of (heap w1 (message_storage.lastMessageIds ms)) url = None \<and> persisted ms w1"
    and "\<And>ms. messageStorage c = Some ms \<Longrightarrow> \<not> ok \<Longrightarrow> disk w1 = disk w"
    and "messageStorage c = None \<Longrightarrow> disk w1 = disk w"
  using assms
  by (auto simp: sendToWebhook_evict_def deleteMessageId_def saveMessageIds_def map_delete_def
      persisted_def Let_def delete_conv' split: option.splits if_splits prod.splits)

lemma post_props:
  assumes "sendToWebhook_post c url e io w = (w2, fx2, r)"
  shows "hd fx2 = HttpPost url e"
    and "\<And>k. k \<noteq> url \<Longrightarrow> map_of (heap w2 r') k = map_of (heap w r') k"
    and "\<And>new_id. post_reply io = PostResolved (Some new_id) \<Longrightarrow> new_id \<noteq> [] \<Longrightarrow>
           r \<and> map_of (heap w2 (webhook_client.lastMessageIds c)) url = Some new_id \<and>
           (\<forall>ms. messageStorage c = Some ms \<and> install_write_ok io \<longrightarrow>
              map_of (heap w2 (message_storage.lastMessageIds ms)) url = Some new_id \<and> persisted ms w2)"
    and "\<And>data_id. post_reply io = PostResolved data_id \<Longrightarrow> truthy data_id = None \<Longrightarrow>
           w2 = w \<and> fx2 = [HttpPost url e] \<and> r"
    and "post_reply io = PostRejected \<Longrightarrow> w2 = w \<and> fx2 = [HttpPost url e] \<and> \<not> r"
  using assms
  by (auto simp: sendToWebhook_post_def setMessageId_def saveMessageIds_def map_set_def
      persisted_def Let_def update_conv' truthy_def
      split: option.splits if_splits prod.splits post_reply.splits)

lemma evict_no_post:
  "sendToWebhook_evict c url ok w = (w1, fx1) \<Longrightarrow> HttpPost u p \<notin> set fx1"
  by (auto simp: sendToWebhook_evict_def deleteMessageId_def saveMessageIds_def Let_def
      split: option.splits if_splits prod.splits)

text \<open>
  Claim C1. For a destination with a recorded message id (a non-empty string, as every
  id that a delivery records is): when the PATCH resolves, \<^verbatim>\<open>sendToWebhook\<close> leaves the Maps and the
  files as they were, issues nothing but the PATCH and returns \<^verbatim>\<open>true\<close>. When the PATCH is
  rejected, the entry is deleted from the client's Map before the POST is issued, and the
  eviction is persisted: with the storage the tracker attaches, once
  \<^verbatim>\<open>saveMessageIds\<close> has written the file, the storage's Map has no entry for the destination
  and the file holds the text of that Map. A POST that then resolves with a non-empty id
  returns \<^verbatim>\<open>true\<close> and installs the id in the Map, and in the file in the same way.
\<close>

theorem C1_update_or_evict_then_post:
  assumes "map_of (heap w (webhook_client.lastMessageIds c)) url = Some mid" and "mid \<noteq> []"
    and "sendToWebhook c url e io w = (w', fx, r)"
  shows "(patch_ok io \<longrightarrow> w' = w \<and> r \<and> fx = [HttpPatch url mid e]) \<and>
         (\<not> patch_ok io \<longrightarrow>
            (\<exists>w1 fx1 fx2.
               sendToWebhook_evict c url (evict_write_ok io) w = (w1, fx1) \<and>
               map_of (heap w1 (webhook_client.lastMessageIds c)) url = None \<and>
               (\<forall>ms. messageStorage c = Some ms \<and> evict_write_ok io \<longrightarrow>
                  map_of (heap w1 (message_storage.lastMessageIds ms)) url = None \<and> persisted ms w1) \<and>
               sendToWebhook_post c url e io w1 = (w', fx2, r) \<and>
               fx = HttpPatch url mid e # fx1 @ fx2 \<and>
               (\<forall>u p. HttpPost u p \<notin> set fx1) \<and> hd fx2 = HttpPost url e \<and>
               (\<forall>new_id. post_reply io = PostResolved (Some new_id) \<and> new_id \<noteq> [] \<longrightarrow>
                  r \<and> map_of (heap w' (webhook_client.lastMessageIds c)) url = Some new_id \<and>
                  (\<forall>ms. messageStorage c = Some ms \<and> install_write_ok io \<longrightarrow>
                     map_of (heap w' (message_storage.lastMessageIds ms)) url = Some new_id \<and>
                     persisted ms w'))))"
proof -
  have t: "truthy (map_of (heap w (webhook_client.lastMessageIds c)) url) = Some mid"
    using assms(1,2) by (simp add: truthy_def)
  show ?thesis
  proof (cases "patch_ok io")
    case True
    with assms(3) t show ?thesis by (simp add: sendToWebhook_def sendToWebhook_from_def)
  next
    case False
    obtain w1 fx1 where ev: "sendToWebhook_evict c url (evict_write_ok io) w = (w1, fx1 :: 'a effect list)"
      by (cases "sendToWebhook_evict c url (evict_write_ok io) w :: world \<times> 'a effect list") auto
    obtain w2 fx2 r2 where po: "sendToWebhook_post c url e io w1 = (w2, fx2, r2)"
      by (cases "sendToWebhook_post c url e io w1") auto
    from assms(3) t False ev po have eq: "w' = w2" "fx = HttpPatch url mid e # fx1 @ fx2" "r = r2"
      by (simp_all add: sendToWebhook_def sendToWebhook_from_def)
    note E = evict_props [OF ev] and P = post_props [OF po]
    have "\<forall>ms. messageStorage c = Some ms \<and> evict_write_ok io \<longrightarrow>
            map_of (heap w1 (message_storage.lastMessageIds ms)) url = None \<and> persisted ms w1"
      using E(3) by blast
    moreover have "\<forall>u p. HttpPost u p \<notin> set fx1" using evict_no_post [OF ev] by blast
    moreover have "\<forall>new_id. post_reply io = PostResolved (Some new_id) \<and> new_id \<noteq> [] \<longrightarrow>
        r \<and> map_of (heap w' (webhook_client.lastMessageIds c)) url = Some new_id \<and>
        (\<forall>ms. messageStorage c = Some ms \<and> install_write_ok io \<longrightarrow>
           map_of (heap w' (message_storage.lastMessageIds ms)) url = Some new_id \<and> persisted ms w')"
      using P(3) unfolding eq by blast
    ultimately show ?thesis using False ev po E(1) P(1) unfolding eq by blast
  qed
qed

text \<open>
  The recorded message is edited. Or the edit is rejected: the entry is evicted and the
  file is written without it, then a new message \<open>222\<close> is posted and recorded.
\<close>

theorem C1_update_or_evict_then_post_witness:
  "sendToWebhook ex_client ex_u1 ''embed'' (ex_replies 0) ex_world =
     (ex_world, [HttpPatch ex_u1 ''111'' ''embed''], True) \<and>
   map_of (heap (fst (sendToWebhook_evict ex_client ex_u1 True ex_world :: world \<times> string effect list))
     (webhook_client.lastMessageIds ex_client)) ex_u1 = None \<and>
   persisted ex_storage
     (fst (sendToWebhook_evict ex_client ex_u1 True ex_world :: world \<times> string effect list)) \<and>
   disk (fst (sendToWebhook_evict ex_client ex_u1 True ex_world :: world \<times> string effect list))
     ''message-ids.json'' = Some ''{}'' \<and>
   fst (snd (sendToWebhook ex_client ex_u1 ''embed'' ex_reposted ex_world)) =
     [HttpPatch ex_u1 ''111'' ''embed'', MapDelete 0 ex_u1, MapDelete 0 ex_u1,
      WriteFile ''message-ids.json'' ''{}'', HttpPost ex_u1 ''embed'', MapSet 0 ex_u1 ''222'',
      MapSet 0 ex_u1 ''222'', WriteFile ''message-ids.json'' (JSON_stringify [(ex_u1, ''222'')])] \<and>
   snd (snd (sendToWebhook ex_client ex_u1 ''embed'' ex_reposted ex_world)) \<and>
   map_of (heap (fst (sendToWebhook ex_client ex_u1 ''embed'' ex_reposted ex_world))
     (webhook_client.lastMessageIds ex_client)) ex_u1 = Some ''222'' \<and>
   persisted ex_storage (fst (sendToWebhook ex_client ex_u1 ''embed'' ex_reposted ex_world))"
proof -
  let ?a = "sendToWebhook ex_client ex_u1 ''embed'' (ex_replies 0) ex_world"
  let ?b = "sendToWebhook ex_client ex_u1 ''embed'' ex_reposted ex_world"
  let ?ev = "sendToWebhook_evict ex_client ex_u1 True ex_world :: world \<times> string effect list"
  have rec: "map_of (heap ex_world (webhook_client.lastMessageIds ex_client)) ex_u1 = Some ''111''"
    by (simp add: ex_world_def ex_client_def ex_u1_def)
  have ne: "''111'' \<noteq> []" by simp
  have a: "?a = (fst ?a, fst (snd ?a), snd (snd ?a))" and b: "?b = (fst ?b, fst (snd ?b), snd (snd ?b))"
    by simp_all
  have pk: "patch_ok (ex_replies 0)" by (simp add: ex_replies_def)
  from C1_update_or_evict_then_post [OF rec ne a, THEN conjunct1, THEN mp, OF pk]
  have first: "?a = (ex_world, [HttpPatch ex_u1 ''111'' ''embed''], True)"
    by (subst a) simp
  have np: "\<not> patch_ok ex_reposted"
    and po: "post_reply ex_reposted = PostResolved (Some ''222'') \<and> ''222'' \<noteq> []"
    and st: "messageStorage ex_client = Some ex_storage \<and> install_write_ok ex_reposted"
    and sv: "messageStorage ex_client = Some ex_storage \<and> evict_write_ok ex_reposted"
    and ew: "evict_write_ok ex_reposted = True"
    by (simp_all add: ex_reposted_def ex_client_def)
  from C1_update_or_evict_then_post [OF rec ne b, THEN conjunct2, THEN mp, OF np]
  obtain w1 :: world and fx1 fx2 :: "string effect list" where
    ev: "sendToWebhook_evict ex_client ex_u1 (evict_write_ok ex_reposted) ex_world = (w1, fx1)"
    and gone: "map_of (heap w1 (webhook_client.lastMessageIds ex_client)) ex_u1 = None"
    and kept: "\<forall>ms. messageStorage ex_client = Some ms \<and> evict_write_ok ex_reposted \<longrightarrow>
       map_of (heap w1 (message_storage.lastMessageIds ms)) ex_u1 = None \<and> persisted ms w1"
    and inst: "\<forall>new_id. post_reply ex_reposted = PostResolved (Some new_id) \<and> new_id \<noteq> [] \<longrightarrow>
       snd (snd ?b) \<and>
       map_of (heap (fst ?b) (webhook_client.lastMessageIds ex_client)) ex_u1 = Some new_id \<and>
       (\<forall>ms. messageStorage ex_client = Some ms \<and> install_write_ok ex_reposted \<longrightarrow>
          map_of (heap (fst ?b) (message_storage.lastMessageIds ms)) ex_u1 = Some new_id \<and>
          persisted ms (fst ?b))"
    by blast
  from ev have w1: "w1 = fst ?ev" by (simp add: ew)
  from gone have evicted: "map_of (heap (fst ?ev) (webhook_client.lastMessageIds ex_client)) ex_u1 = None"
    by (simp add: w1)
  from kept [rule_format, OF sv] have saved: "persisted ex_storage (fst ?ev)"
    by (simp add: w1)
  have on_disk: "disk (fst ?ev) ''message-ids.json'' = Some ''{}''"
    by (simp add: sendToWebhook_evict_def deleteMessageId_def saveMessageIds_def map_delete_def
        Let_def ex_world_def ex_client_def ex_storage_def ex_u1_def fromEntries_def JSON_stringify_def)
  have trace: "fst (snd ?b) =
     [HttpPatch ex_u1 ''111'' ''embed'', MapDelete 0 ex_u1, MapDelete 0 ex_u1,
      WriteFile ''message-ids.json'' ''{}'', HttpPost ex_u1 ''embed'', MapSet 0 ex_u1 ''222'',
      MapSet 0 ex_u1 ''222'', WriteFile ''message-ids.json'' (JSON_stringify [(ex_u1, ''222'')])]"
    by (simp add: sendToWebhook_def sendToWebhook_from_def sendToWebhook_evict_def
        sendToWebhook_post_def deleteMessageId_def setMessageId_def saveMessageIds_def
        map_delete_def map_set_def truthy_def Let_def ex_world_def ex_client_def ex_storage_def
        ex_u1_def ex_reposted_def fromEntries_def JSON_stringify_def)
  from inst [rule_format, OF po] st
  have last: "snd (snd ?b) \<and>
        map_of (heap (fst ?b) (webhook_client.lastMessageIds ex_client)) ex_u1 = Some ''222'' \<and>
        persisted ex_storage (fst ?b)"
    by simp
  note l1 = last [THEN conjunct1] and l2 = last [THEN conjunct2, THEN conjunct1]
    and l3 = last [THEN conjunct2, THEN conjunct2]
  from first evicted saved on_disk trace l1 l2 l3 show ?thesis by (intro conjI)
qed

text \<open>
  When \<^verbatim>\<open>fs.writeFileSync\<close> throws, \<^verbatim>\<open>saveMessageIds\<close> catches the error and logs a warning:
  the entry is evicted from the Map, and the file is as it was.
\<close>

lemma ex_failed_write_keeps_file:
  "fst (snd (sendToWebhook ex_client ex_u1 ''embed'' ex_disk_fails ex_world)) =
     [HttpPatch ex_u1 ''111'' ''embed'', MapDelete 0 ex_u1, MapDelete 0 ex_u1,
      WriteFailed ''message-ids.json'', HttpPost ex_u1 ''embed''] \<and>
   map_of (heap (fst (sendToWebhook ex_client ex_u1 ''embed'' ex_disk_fails ex_world))
     (webhook_client.lastMessageIds ex_client)) ex_u1 = None \<and>
   disk (fst (sendToWebhook ex_client ex_u1 ''embed'' ex_disk_fails ex_world)) ''message-ids.json'' =
     Some (JSON_stringify [(ex_u1, ''111'')])"
  by (simp add: sendToWebhook_def sendToWebhook_from_def sendToWebhook_evict_def
      sendToWebhook_post_def deleteMessageId_def saveMessageIds_def map_delete_def truthy_def
      ex_world_def ex_client_def ex_storage_def ex_u1_def ex_disk_fails_def
      fromEntries_def JSON_stringify_def)

text \<open>
  Claim C10. When the POST of a delivery resolves without a truthy \<^verbatim>\<open>data.id\<close>,
  \<^verbatim>\<open>sendToWebhook\<close> returns \<^verbatim>\<open>true\<close>, the post step changes neither Map nor file, no editable
  entry is on record for the destination afterwards (the other entries are as before), and
  the next \<^verbatim>\<open>sendToWebhook\<close> for the destination is its POST part: it issues a POST first and
  no PATCH.
\<close>

theorem C10_post_without_id:
  assumes "post_reply io = PostResolved data_id" and "truthy data_id = None"
    and "truthy (map_of (heap w (webhook_client.lastMessageIds c)) url) = None \<or> \<not> patch_ok io"
    and "sendToWebhook c url e io w = (w', fx, r)"
  shows "r \<and>
         (\<forall>w0. sendToWebhook_post c url e io w0 = (w0, [HttpPost url e], True)) \<and>
         (truthy (map_of (heap w (webhook_client.lastMessageIds c)) url) = None \<longrightarrow>
            w' = w \<and> fx = [HttpPost url e]) \<and>
         truthy (map_of (heap w' (webhook_client.lastMessageIds c)) url) = None \<and>
         (\<forall>k. k \<noteq> url \<longrightarrow>
            map_of (heap w' (webhook_client.lastMessageIds c)) k =
            map_of (heap w (webhook_client.lastMessageIds c)) k) \<and>
         (\<forall>e2 io2. sendToWebhook c url e2 io2 w' = sendToWebhook_post c url e2 io2 w' \<and>
            hd (fst (snd (sendToWebhook c url e2 io2 w'))) = HttpPost url e2)"
proof -
  let ?r = "webhook_client.lastMessageIds c"
  have post: "sendToWebhook_post c url e io w0 = (w0, [HttpPost url e], True)" for w0
    using assms(1,2) by (simp add: sendToWebhook_post_def)
  have main: "r \<and> truthy (map_of (heap w' ?r) url) = None \<and>
      (\<forall>k. k \<noteq> url \<longrightarrow> map_of (heap w' ?r) k = map_of (heap w ?r) k) \<and>
      (truthy (map_of (heap w ?r) url) = None \<longrightarrow> w' = w \<and> fx = [HttpPost url e])"
  proof (cases "truthy (map_of (heap w ?r) url)")
    case None
    with assms(4) post show ?thesis by (simp add: sendToWebhook_def sendToWebhook_from_def)
  next
    case (Some mid)
    with assms(3) have np: "\<not> patch_ok io" by simp
    obtain w1 fx1 where ev: "sendToWebhook_evict c url (evict_write_ok io) w = (w1, fx1 :: 'a effect list)"
      by (cases "sendToWebhook_evict c url (evict_write_ok io) w :: world \<times> 'a effect list") auto
    from assms(4) Some np ev post [of w1] have eq: "w' = w1" "r"
      by (simp_all add: sendToWebhook_def sendToWebhook_from_def)
    from evict_props(1,2) [OF ev] Some eq(2) show ?thesis unfolding eq(1) by (simp add: truthy_def)
  qed
  have "sendToWebhook c url e2 io2 w' = sendToWebhook_post c url e2 io2 w' \<and>
        hd (fst (snd (sendToWebhook c url e2 io2 w'))) = HttpPost url e2" for e2 io2
  proof -
    have s: "sendToWebhook c url e2 io2 w' = sendToWebhook_post c url e2 io2 w'"
      using main by (simp add: sendToWebhook_def sendToWebhook_from_def)
    obtain w2 fx2 r2 where po: "sendToWebhook_post c url e2 io2 w' = (w2, fx2, r2)"
      by (cases "sendToWebhook_post c url e2 io2 w'") auto
    from post_props(1) [OF po] s po show ?thesis by simp
  qed
  with main post show ?thesis by blast
qed

text \<open>The edit is rejected, the POST resolves without an id; the next send posts.\<close>

theorem C10_post_without_id_witness:
  "snd (snd (sendToWebhook ex_client ex_u1 ''embed'' ex_no_id ex_world)) \<and>
   map_of (heap (fst (sendToWebhook ex_client ex_u1 ''embed'' ex_no_id ex_world))
     (webhook_client.lastMessageIds ex_client)) ex_u1 = None \<and>
   hd (fst (snd (sendToWebhook ex_client ex_u1 ''next embed'' (ex_replies 0)
     (fst (sendToWebhook ex_client ex_u1 ''embed'' ex_no_id ex_world))))) =
     HttpPost ex_u1 ''next embed''"
proof -
  let ?a = "sendToWebhook ex_client ex_u1 ''embed'' ex_no_id ex_world"
  have a: "?a = (fst ?a, fst (snd ?a), snd (snd ?a))" by simp
  have h: "post_reply ex_no_id = PostResolved None" "truthy None = None"
    "truthy (map_of (heap ex_world (webhook_client.lastMessageIds ex_client)) ex_u1) = None \<or>
     \<not> patch_ok ex_no_id"
    by (simp_all add: ex_no_id_def truthy_def)
  note th = C10_post_without_id [OF h a]
  from th have r: "snd (snd ?a)" by (rule conjunct1)
  from th have nxt: "\<forall>e2 io2.
      sendToWebhook ex_client ex_u1 e2 io2 (fst ?a) = sendToWebhook_post ex_client ex_u1 e2 io2 (fst ?a) \<and>
      hd (fst (snd (sendToWebhook ex_client ex_u1 e2 io2 (fst ?a)))) = HttpPost ex_u1 e2"
    by (elim conjE)
  have none: "map_of (heap (fst ?a) (webhook_client.lastMessageIds ex_client)) ex_u1 = None"
    by (simp add: sendToWebhook_def sendToWebhook_from_def sendToWebhook_evict_def
      sendToWebhook_post_def deleteMessageId_def saveMessageIds_def map_delete_def truthy_def
      ex_world_def ex_client_def ex_storage_def ex_u1_def ex_no_id_def Let_def)
  note third = nxt [rule_format, of "''next embed''" "ex_replies 0", THEN conjunct2]
  from r none third show ?thesis by (intro conjI)
qed

section \<open>Properties of the cycle\<close>

lemma single_flight_new: "single_flight (new_tracker f)"
  by (simp add: single_flight_def new_tracker_def)

lemma one_suspended:
  "length xs = Suc 0 \<Longrightarrow> x \<in> set xs \<Longrightarrow> remove1 x xs = []"
  by (cases xs) auto

lemma single_flight_step:
  "single_flight t \<Longrightarrow> step ev t = Some t' \<Longrightarrow> single_flight t'"
  by (cases ev)
     (auto simp: single_flight_def checkServer_catch_def checkServer_finally_def one_suspended
           split: if_splits prod.splits sum.splits)

lemma single_flight_run:
  "single_flight t \<Longrightarrow> run evs t = Some t' \<Longrightarrow> single_flight t'"
  by (induction evs arbitrary: t) (auto split: option.splits dest: single_flight_step)

lemma exit_clears:
  "single_flight t \<Longrightarrow> step ev t = Some t' \<Longrightarrow> length (suspended t') < length (suspended t) \<Longrightarrow>
   \<not> isRunning t'"
  by (cases ev)
     (auto simp: single_flight_def checkServer_catch_def checkServer_finally_def one_suspended
           split: if_splits prod.splits sum.splits)

text \<open>
  What a fetch leaves in the counter; and, in the states the tracker reaches, the counter
  is 0 while the data of a fetch is processed (the fetch has just succeeded, and no other
  fetch starts before the cycle ends).
\<close>

lemma fetch_counter:
  "fetchServerInfo f http retryCount = (effects, r, f') \<Longrightarrow>
   consecutiveErrors f' = (case r of Inr data \<Rightarrow> 0 | Inl error \<Rightarrow> consecutiveErrors f + 1)"
proof (induction f http retryCount arbitrary: effects r f' rule: fetchServerInfo.induct)
  case (1 f http retryCount)
  show ?case
  proof (cases "http retryCount")
    case (Inr data)
    from "1.prems" have "r = Inr data \<and> f' = f\<lparr>consecutiveErrors := 0\<rparr>"
      by (subst (asm) fetchServerInfo.simps) (simp add: Inr)
    then show ?thesis by simp
  next
    case (Inl error)
    show ?thesis
    proof (cases "retryCount < maxRetries f")
      case True
      obtain effects' r' f'' where rec: "fetchServerInfo f http (retryCount + 1) = (effects', r', f'')"
        by (cases "fetchServerInfo f http (retryCount + 1)") auto
      have "r = r' \<and> f' = f''"
        using "1.prems" Inl True rec by (subst (asm) fetchServerInfo.simps) simp
      with "1.IH" [OF Inl True rec] show ?thesis by simp
    next
      case False
      with "1.prems" have "r = Inl error \<and> f' = f\<lparr>consecutiveErrors := consecutiveErrors f + 1\<rparr>"
        by (subst (asm) fetchServerInfo.simps) (simp add: Inl)
      then show ?thesis by simp
    qed
  qed
qed

lemma processing_step:
  "AwaitProcess \<in> set (suspended t) \<longrightarrow> getConsecutiveErrors (serverFetcher t) = 0 \<Longrightarrow> single_flight t \<Longrightarrow>
   step ev t = Some t' \<Longrightarrow>
   AwaitProcess \<in> set (suspended t') \<longrightarrow> getConsecutiveErrors (serverFetcher t') = 0"
  by (cases ev)
     (auto simp: single_flight_def checkServer_catch_def checkServer_finally_def one_suspended
           getConsecutiveErrors_def
           split: if_splits prod.splits sum.splits dest: fetch_counter)

lemma processing_run:
  "AwaitProcess \<in> set (suspended t) \<longrightarrow> getConsecutiveErrors (serverFetcher t) = 0 \<Longrightarrow> single_flight t \<Longrightarrow>
   run evs t = Some t' \<Longrightarrow>
   AwaitProcess \<in> set (suspended t') \<longrightarrow> getConsecutiveErrors (serverFetcher t') = 0"
proof (induction evs arbitrary: t)
  case Nil
  then show ?case by simp
next
  case (Cons ev evs)
  from Cons.prems(3) obtain t1 where s: "step ev t = Some t1" and r: "run evs t1 = Some t'"
    by (auto split: option.splits)
  from Cons.IH [OF processing_step [OF Cons.prems(1,2) s] single_flight_step [OF Cons.prems(2) s] r]
  show ?case .
qed

text \<open>The fetch of the running cycle settles.\<close>

lemma fetch_settles:
  fixes http :: "nat \<Rightarrow> 'e + 'd"
  assumes "suspended t = [AwaitFetch]" and "isRunning t"
  shows "\<exists>t'. step (FetchSettled http) t = Some t' \<and> fetches t' = fetches t \<and>
           (case fst (snd (fetchServerInfo (serverFetcher t) http 0)) of
              Inr data \<Rightarrow> isRunning t' \<and> suspended t' = [AwaitProcess]
            | Inl error \<Rightarrow>
                if getConsecutiveErrors (serverFetcher t') \<ge> 3
                then isRunning t' \<and> suspended t' = [AwaitErrorNotification]
                else \<not> isRunning t' \<and> suspended t' = [])"
proof -
  obtain effects r f' where f: "fetchServerInfo (serverFetcher t) http 0 = (effects, r, f')"
    by (cases "fetchServerInfo (serverFetcher t) http 0") auto
  show ?thesis
    using assms f
    by (cases r) (auto simp: checkServer_catch_def checkServer_finally_def getConsecutiveErrors_def)
qed

text \<open>
  Claim C8. In every state the tracker reaches from its construction, at most one
  invocation of \<^verbatim>\<open>checkServer\<close> is past the guard, and \<^verbatim>\<open>isRunning\<close> is true exactly while one
  is. A trigger that fires while \<^verbatim>\<open>isRunning\<close> is true changes nothing (the fetcher is not
  invoked); one that fires while it is false sets it and invokes the fetcher once. A cycle
  that has started goes on as follows, and no step of it invokes the fetcher again. When
  its fetch settles with data, the cycle processes the data, still running; when the fetch
  fails, the cycle awaits the error notification if this is the third failure in a row or
  more, and otherwise ends. When the processing returns, and when it throws, the cycle ends.
  When the error notification settles, the cycle ends. Whenever a cycle ends, \<^verbatim>\<open>isRunning\<close>
  is false afterwards and no invocation remains, so that the next trigger starts a cycle.
\<close>

theorem C8_single_flight:
  fixes evs :: "('e, 'd) event list" and ev :: "('e, 'd) event" and http :: "nat \<Rightarrow> 'e + 'd"
  assumes "run evs (new_tracker f) = Some t"
  shows "length (suspended t) \<le> 1 \<and> (isRunning t \<longleftrightarrow> suspended t \<noteq> []) \<and>
         (isRunning t \<longrightarrow> step (Trigger :: ('e, 'd) event) t = Some t) \<and>
         (\<not> isRunning t \<longrightarrow>
            (\<exists>t'. step (Trigger :: ('e, 'd) event) t = Some t' \<and> isRunning t' \<and>
                  suspended t' = [AwaitFetch] \<and> fetches t' = fetches t + 1)) \<and>
         (\<forall>t'. step ev t = Some t' \<and> length (suspended t') < length (suspended t) \<longrightarrow>
            \<not> isRunning t' \<and> suspended t' = []) \<and>
         (suspended t = [AwaitFetch] \<longrightarrow>
            (\<exists>t'. step (FetchSettled http) t = Some t' \<and> fetches t' = fetches t \<and>
               (case fst (snd (fetchServerInfo (serverFetcher t) http 0)) of
                  Inr data \<Rightarrow> isRunning t' \<and> suspended t' = [AwaitProcess]
                | Inl error \<Rightarrow>
                    if getConsecutiveErrors (serverFetcher t') \<ge> 3
                    then isRunning t' \<and> suspended t' = [AwaitErrorNotification]
                    else \<not> isRunning t' \<and> suspended t' = []))) \<and>
         (suspended t = [AwaitProcess] \<longrightarrow>
            (\<exists>t'. step (ProcessReturned success now n :: ('e, 'd) event) t = Some t' \<and>
                  \<not> isRunning t' \<and> suspended t' = [] \<and> fetches t' = fetches t) \<and>
            (\<exists>t'. step (ProcessThrew :: ('e, 'd) event) t = Some t' \<and>
                  \<not> isRunning t' \<and> suspended t' = [] \<and> fetches t' = fetches t)) \<and>
         (suspended t = [AwaitErrorNotification] \<longrightarrow>
            (\<exists>t'. step (ErrorNotificationSettled :: ('e, 'd) event) t = Some t' \<and>
                  \<not> isRunning t' \<and> suspended t' = [] \<and> fetches t' = fetches t))"
proof -
  have sf: "single_flight t" using single_flight_run [OF single_flight_new assms] .
  have zero: "AwaitProcess \<in> set (suspended t) \<longrightarrow> getConsecutiveErrors (serverFetcher t) = 0"
    using processing_run [OF _ single_flight_new assms] by (simp add: new_tracker_def)
  have a: "length (suspended t) \<le> 1" and b: "isRunning t \<longleftrightarrow> suspended t \<noteq> []"
    using sf by (auto simp: single_flight_def split: if_splits)
  have c: "isRunning t \<longrightarrow> step (Trigger :: ('e, 'd) event) t = Some t"
    by simp
  have d: "\<not> isRunning t \<longrightarrow>
            (\<exists>t'. step (Trigger :: ('e, 'd) event) t = Some t' \<and> isRunning t' \<and>
                  suspended t' = [AwaitFetch] \<and> fetches t' = fetches t + 1)"
    using b by simp
  have e: "\<not> isRunning t' \<and> suspended t' = []"
    if "step ev t = Some t' \<and> length (suspended t') < length (suspended t)" for t'
  proof -
    from that have st: "step ev t = Some t'" and lt: "length (suspended t') < length (suspended t)"
      by simp_all
    from exit_clears [OF sf st lt] single_flight_step [OF sf st] show ?thesis
      by (simp add: single_flight_def)
  qed
  have g: "suspended t = [AwaitFetch] \<longrightarrow>
            (\<exists>t'. step (FetchSettled http) t = Some t' \<and> fetches t' = fetches t \<and>
               (case fst (snd (fetchServerInfo (serverFetcher t) http 0)) of
                  Inr data \<Rightarrow> isRunning t' \<and> suspended t' = [AwaitProcess]
                | Inl error \<Rightarrow>
                    if getConsecutiveErrors (serverFetcher t') \<ge> 3
                    then isRunning t' \<and> suspended t' = [AwaitErrorNotification]
                    else \<not> isRunning t' \<and> suspended t' = []))"
    using fetch_settles [of t http] b by simp
  have h: "suspended t = [AwaitProcess] \<longrightarrow>
            (\<exists>t'. step (ProcessReturned success now n :: ('e, 'd) event) t = Some t' \<and>
                  \<not> isRunning t' \<and> suspended t' = [] \<and> fetches t' = fetches t) \<and>
            (\<exists>t'. step (ProcessThrew :: ('e, 'd) event) t = Some t' \<and>
                  \<not> isRunning t' \<and> suspended t' = [] \<and> fetches t' = fetches t)"
    using zero by (simp add: checkServer_finally_def checkServer_catch_def)
  have i: "suspended t = [AwaitErrorNotification] \<longrightarrow>
            (\<exists>t'. step (ErrorNotificationSettled :: ('e, 'd) event) t = Some t' \<and>
                  \<not> isRunning t' \<and> suspended t' = [] \<and> fetches t' = fetches t)"
    by (simp add: checkServer_finally_def)
  from a b c d e g h i show ?thesis by blast
qed

text \<open>
  Two triggers start one cycle. Its fetch fails, and the cycle ends with the flag cleared;
  or its fetch succeeds, and the cycle ends with the flag cleared when the processing
  returns and when it throws. After three failed cycles the error notification is awaited,
  and the flag is cleared when it settles.
\<close>

theorem C8_single_flight_witness:
  "run [Trigger, Trigger :: (string, string) event] (new_tracker config_fetcher) = Some ex_running \<and>
   isRunning ex_running \<and> fetches ex_running = 1 \<and>
   step (Trigger :: (string, string) event) ex_running = Some ex_running \<and>
   step (FetchSettled (\<lambda>n. Inl ''ETIMEDOUT'' :: string + string)) ex_running = Some ex_failed \<and>
   \<not> isRunning ex_failed \<and> suspended ex_failed = [] \<and>
   run [Trigger, FetchSettled (\<lambda>n. Inr ''data'' :: string + string)] (new_tracker config_fetcher) =
     Some ex_processing \<and>
   isRunning ex_processing \<and>
   step (ProcessReturned True 1700000000 6 :: (string, string) event) ex_processing = Some ex_done \<and>
   \<not> isRunning ex_done \<and> suspended ex_done = [] \<and>
   step (ProcessThrew :: (string, string) event) ex_processing = Some ex_threw \<and>
   \<not> isRunning ex_threw \<and> suspended ex_threw = [] \<and>
   run [Trigger, FetchSettled (\<lambda>n. Inl ''ETIMEDOUT'' :: string + string),
        Trigger, FetchSettled (\<lambda>n. Inl ''ETIMEDOUT''),
        Trigger, FetchSettled (\<lambda>n. Inl ''ETIMEDOUT'')] (new_tracker config_fetcher) =
     Some ex_notifying \<and>
   isRunning ex_notifying \<and>
   step (ErrorNotificationSettled :: (string, string) event) ex_notifying = Some ex_notified \<and>
   \<not> isRunning ex_notified \<and> suspended ex_notified = []"
proof -
  let ?fail = "FetchSettled (\<lambda>n. Inl ''ETIMEDOUT'' :: string + string)"
  let ?ok = "FetchSettled (\<lambda>n. Inr ''data'' :: string + string)"
  have r: "run [Trigger, Trigger :: (string, string) event] (new_tracker config_fetcher) = Some ex_running"
    by (simp add: new_tracker_def ex_running_def)
  have running: "isRunning ex_running" and one: "fetches ex_running = 1"
    by (simp_all add: ex_running_def)
  have f: "fetchServerInfo (config_fetcher\<lparr>consecutiveErrors := k\<rparr>)
             (\<lambda>n. Inl ''ETIMEDOUT'' :: string + string) 0 =
      ([HttpGet (apiUrl config_fetcher), Sleep 30000, HttpGet (apiUrl config_fetcher), Sleep 30000,
        HttpGet (apiUrl config_fetcher), Sleep 30000, HttpGet (apiUrl config_fetcher)],
       Inl ''ETIMEDOUT'', config_fetcher\<lparr>consecutiveErrors := Suc k\<rparr>)" for k
    by (simp add: fetchServerInfo.simps config_fetcher_def)
  have f0: "config_fetcher\<lparr>consecutiveErrors := 0\<rparr> = config_fetcher"
    by (simp add: config_fetcher_def)
  have g: "fetchServerInfo config_fetcher (\<lambda>n. Inr ''data'' :: string + string) 0 =
      ([HttpGet (apiUrl config_fetcher)], Inr ''data'', config_fetcher)"
    by (simp add: fetchServerInfo.simps config_fetcher_def)
  have s: "step ?fail ex_running = Some ex_failed"
    using f [of 0] by (simp add: f0 ex_running_def ex_failed_def checkServer_catch_def
        checkServer_finally_def getConsecutiveErrors_def)
  have shorter: "step ?fail ex_running = Some ex_failed \<and>
      length (suspended ex_failed) < length (suspended ex_running)"
    using s by (simp add: ex_running_def ex_failed_def)
  note th = C8_single_flight [OF r, of ?fail]
  from th running have again: "step (Trigger :: (string, string) event) ex_running = Some ex_running"
    by blast
  from th shorter have cleared: "\<not> isRunning ex_failed \<and> suspended ex_failed = []"
    by blast
  have p: "run [Trigger, ?ok] (new_tracker config_fetcher) = Some ex_processing"
    using g by (simp add: new_tracker_def ex_processing_def)
  have sp: "suspended ex_processing = [AwaitProcess]" by (simp add: ex_processing_def)
  have ret: "step (ProcessReturned True 1700000000 6 :: (string, string) event) ex_processing = Some ex_done"
    and thr: "step (ProcessThrew :: (string, string) event) ex_processing = Some ex_threw"
    by (simp_all add: ex_processing_def ex_done_def ex_threw_def checkServer_finally_def
        checkServer_catch_def getConsecutiveErrors_def config_fetcher_def)
  note tp = C8_single_flight [OF p, of _ _ True 1700000000 6]
  from tp have "isRunning ex_processing \<longleftrightarrow> suspended ex_processing \<noteq> []" by blast
  with sp have proc: "isRunning ex_processing" by simp
  from tp sp have
    "\<exists>t'. step (ProcessReturned True 1700000000 6 :: (string, string) event) ex_processing = Some t' \<and>
        \<not> isRunning t' \<and> suspended t' = [] \<and> fetches t' = fetches ex_processing"
    "\<exists>t'. step (ProcessThrew :: (string, string) event) ex_processing = Some t' \<and>
        \<not> isRunning t' \<and> suspended t' = [] \<and> fetches t' = fetches ex_processing"
    by blast+
  with ret thr have finished: "\<not> isRunning ex_done \<and> suspended ex_done = []"
    and threw: "\<not> isRunning ex_threw \<and> suspended ex_threw = []"
    by auto
  have n: "run [Trigger, ?fail, Trigger, ?fail, Trigger, ?fail] (new_tracker config_fetcher) =
      Some ex_notifying"
    using f [of 0] f [of "Suc 0"] f [of "Suc (Suc 0)"]
    by (simp add: f0 new_tracker_def ex_notifying_def checkServer_catch_def
        checkServer_finally_def getConsecutiveErrors_def numeral_3_eq_3)
  have sn: "suspended ex_notifying = [AwaitErrorNotification]" by (simp add: ex_notifying_def)
  have nd: "step (ErrorNotificationSettled :: (string, string) event) ex_notifying = Some ex_notified"
    by (simp add: ex_notifying_def ex_notified_def checkServer_finally_def)
  note tn = C8_single_flight [OF n]
  from tn have "isRunning ex_notifying \<longleftrightarrow> suspended ex_notifying \<noteq> []" by blast
  with sn have notifying: "isRunning ex_notifying" by simp
  from tn sn have
    "\<exists>t'. step (ErrorNotificationSettled :: (string, string) event) ex_notifying = Some t' \<and>
        \<not> isRunning t' \<and> suspended t' = [] \<and> fetches t' = fetches ex_notifying"
    by blast
  with nd have notified: "\<not> isRunning ex_notified \<and> suspended ex_notified = []" by auto
  from r running one again s cleared p proc ret finished thr threw n notifying nd notified
  show ?thesis by (intro conjI) simp_all
qed

section \<open>Properties of the rounding\<close>

declare bit_length.simps [simp del]

lemma bit_length_bounds:
  "0 < a \<Longrightarrow> 2 ^ nat (bit_length a - 1) \<le> a \<and> a < 2 ^ nat (bit_length a) \<and> 1 \<le> bit_length a"
proof (induction a rule: bit_length.induct)
  case (1 a)
  show ?case
  proof (cases "a = 1")
    case True
    then show ?thesis by (simp add: bit_length.simps [of 1] bit_length.simps [of 0])
  next
    case False
    with "1.prems" have h: "0 < a div 2" by simp
    from "1.prems" have nle: "\<not> a \<le> 0" by simp
    from "1.IH" [OF nle h] have
      lo: "2 ^ nat (bit_length (a div 2) - 1) \<le> a div 2" and
      hi: "a div 2 < 2 ^ nat (bit_length (a div 2))" and
      ge: "1 \<le> bit_length (a div 2)" by simp_all
    have bl: "bit_length a = 1 + bit_length (a div 2)"
      using nle by (subst bit_length.simps) simp
    have n1: "nat (bit_length a - 1) = Suc (nat (bit_length (a div 2) - 1))"
      using ge bl by simp
    have n2: "nat (bit_length a) = Suc (nat (bit_length (a div 2)))"
      using ge bl by simp
    have "2 * (a div 2) \<le> a" by simp
    with lo have l: "2 ^ nat (bit_length a - 1) \<le> a" unfolding n1 by simp
    have "a < 2 * (a div 2 + 1)" by simp
    moreover from hi have "a div 2 + 1 \<le> 2 ^ nat (bit_length (a div 2))" by simp
    ultimately have u: "a < 2 ^ nat (bit_length a)" unfolding n2 by simp
    from l u ge bl show ?thesis by simp
  qed
qed

lemma powi_nat: "0 \<le> k \<Longrightarrow> (2::rat) powi k = 2 ^ nat k"
  by (simp add: power_int_def)

lemma pow2_le_rat: "(2::int) ^ k \<le> a \<Longrightarrow> (2::rat) ^ k \<le> of_int a"
proof -
  assume "(2::int) ^ k \<le> a"
  then have "(of_int ((2::int) ^ k) :: rat) \<le> of_int a" by (simp only: of_int_le_iff)
  then show ?thesis by simp
qed

lemma less_pow2_rat: "a < (2::int) ^ k \<Longrightarrow> of_int a < (2::rat) ^ k"
proof -
  assume "a < (2::int) ^ k"
  then have "(of_int a :: rat) < of_int ((2::int) ^ k)" by (simp only: of_int_less_iff)
  then show ?thesis by simp
qed

lemma ilog2_bounds:
  assumes "0 < x"
  shows "2 powi (ilog2 x) \<le> x \<and> x < 2 powi (ilog2 x + 1)"
proof -
  obtain a b where q: "quotient_of x = (a, b)" by (cases "quotient_of x") auto
  have b: "0 < b" using quotient_of_denom_pos [OF q] .
  have x: "x = of_int a / of_int b" using quotient_of_div [OF q] .
  have a: "0 < a" using assms b unfolding x by (simp add: zero_less_divide_iff)
  let ?la = "bit_length a" and ?lb = "bit_length b"
  let ?e = "?la - ?lb"
  from bit_length_bounds [OF a] have
    alo: "(2::rat) powi (?la - 1) \<le> of_int a" and ahi: "of_int a < (2::rat) powi ?la"
    by (simp_all add: powi_nat pow2_le_rat less_pow2_rat)
  from bit_length_bounds [OF b] have
    blo: "(2::rat) powi (?lb - 1) \<le> of_int b" and bhi: "of_int b < (2::rat) powi ?lb"
    by (simp_all add: powi_nat pow2_le_rat less_pow2_rat)
  have bpos: "(0::rat) < of_int b" using b by simp
  have lower: "2 powi (?e - 1) \<le> x"
  proof -
    have "2 powi (?e - 1) * of_int b \<le> (2::rat) powi (?e - 1) * 2 powi ?lb"
      using bhi by (intro mult_left_mono) simp_all
    also have "\<dots> = 2 powi (?la - 1)" by (simp flip: power_int_add)
    also have "\<dots> \<le> of_int a" by (rule alo)
    finally show ?thesis unfolding x using bpos by (simp add: pos_le_divide_eq)
  qed
  have upper: "x < 2 powi (?e + 1)"
  proof -
    have "of_int a < (2::rat) powi ?la" by (rule ahi)
    also have "\<dots> = 2 powi (?e + 1) * 2 powi (?lb - 1)" by (simp flip: power_int_add)
    also have "\<dots> \<le> 2 powi (?e + 1) * of_int b"
      using blo by (intro mult_left_mono) simp_all
    finally show ?thesis unfolding x using bpos by (simp add: pos_divide_less_eq)
  qed
  show ?thesis
  proof (cases "x < 2 powi ?e")
    case True
    then have "ilog2 x = ?e - 1" by (simp add: ilog2_def q Let_def)
    with lower True show ?thesis by simp
  next
    case False
    then have "ilog2 x = ?e" by (simp add: ilog2_def q Let_def)
    with upper False show ?thesis by simp
  qed
qed

lemma round_half_even_error: "\<bar>of_int (round_half_even y) - y\<bar> \<le> 1 / 2"
proof -
  have "of_int \<lfloor>y\<rfloor> \<le> y" "y < of_int \<lfloor>y\<rfloor> + 1" by linarith+
  then show ?thesis by (auto simp: round_half_even_def Let_def)
qed

lemma round_half_even_int [simp]: "round_half_even (of_int n) = n"
  by (simp add: round_half_even_def)

lemma round_half_even_nonneg: "0 \<le> y \<Longrightarrow> 0 \<le> round_half_even y"
  by (auto simp: round_half_even_def Let_def)

lemma fl_pos_eq:
  "0 < x \<Longrightarrow> fl x = of_int (round_half_even (x / 2 powi (ilog2 x - 52))) * 2 powi (ilog2 x - 52)"
  by (simp add: fl_def Let_def)

lemma fl_nonneg: "0 \<le> x \<Longrightarrow> 0 \<le> fl x"
proof (cases "x = 0")
  case True
  then show ?thesis by (simp add: fl_def)
next
  case False
  assume "0 \<le> x"
  with False have x: "0 < x" by simp
  have "0 \<le> x / 2 powi (ilog2 x - 52)" using x by simp
  from round_half_even_nonneg [OF this] show ?thesis
    unfolding fl_pos_eq [OF x] by simp
qed

lemma fl_error:
  assumes "0 < x"
  shows "\<bar>fl x - x\<bar> \<le> x / 2 ^ 53"
proof -
  let ?e = "ilog2 x"
  let ?u = "(2::rat) powi (?e - 52)"
  have u: "0 < ?u" by simp
  have "fl x - x = (of_int (round_half_even (x / ?u)) - x / ?u) * ?u"
    unfolding fl_pos_eq [OF assms] using u by (simp add: left_diff_distrib)
  then have "\<bar>fl x - x\<bar> = \<bar>of_int (round_half_even (x / ?u)) - x / ?u\<bar> * ?u"
    using u by (simp add: abs_mult)
  also have "\<dots> \<le> 1 / 2 * ?u"
    using round_half_even_error [of "x / ?u"] u by (intro mult_right_mono) simp_all
  also have "\<dots> = 2 powi ?e / 2 ^ 53"
    by (simp add: power_int_diff)
  also have "\<dots> \<le> x / 2 ^ 53"
    using ilog2_bounds [OF assms] by (simp add: divide_right_mono)
  finally show ?thesis .
qed

lemma fl_int_exact:
  assumes "0 \<le> n" and "n < 2 ^ 53"
  shows "fl (of_int n) = of_int n"
proof (cases "n = 0")
  case True
  then show ?thesis by (simp add: fl_def)
next
  case False
  with assms have pos: "(0::rat) < of_int n" by simp
  let ?e = "ilog2 (of_int n)"
  from ilog2_bounds [OF pos] have "(2::rat) powi ?e \<le> of_int n" by simp
  also have "(of_int n :: rat) < 2 ^ 53" using assms(2) by (rule less_pow2_rat)
  also have "(2::rat) ^ 53 = 2 powi 53" by simp
  finally have "(2::rat) powi ?e < 2 powi 53" .
  then have "?e < 53" by (rule power_int_le_imp_less_exp [rotated]) simp_all
  then have k: "0 \<le> 52 - ?e" by simp
  have u: "(2::rat) powi (?e - 52) = 1 / 2 ^ nat (52 - ?e)"
    using k by (simp add: power_int_def field_simps)
  have "of_int n / (2::rat) powi (?e - 52) = of_int (n * 2 ^ nat (52 - ?e))"
    unfolding u by simp
  then have "round_half_even (of_int n / (2::rat) powi (?e - 52)) = n * 2 ^ nat (52 - ?e)"
    by (simp only: round_half_even_int)
  then show ?thesis unfolding fl_pos_eq [OF pos] by (simp add: u)
qed

lemma floor_js_div:
  assumes "0 \<le> a" and "a < 2 ^ 53" and "0 < b"
  shows "Math_floor (js_div (of_int a) (of_int b)) = a div b"
proof (cases "a mod b = 0")
  case True
  then have "b dvd a" by (simp add: dvd_eq_mod_eq_0)
  then have "a = b * (a div b)" by simp
  then have eq: "(of_int a :: rat) / of_int b = of_int (a div b)"
    using assms(3) by (metis nonzero_mult_div_cancel_left of_int_0_eq_iff of_int_mult less_irrefl)
  have "0 \<le> a div b" using assms(1,3) by (simp add: pos_imp_zdiv_nonneg_iff)
  moreover have "a div b \<le> a" using assms(1,3) by (metis div_0 int_div_le_self linorder_le_less_linear nle_le)
  ultimately have "fl (of_int (a div b)) = of_int (a div b)"
    using assms(2) by (intro fl_int_exact) simp_all
  then show ?thesis by (simp add: Math_floor_def js_div_def eq)
next
  case False
  let ?x = "(of_int a :: rat) / of_int b"
  let ?k = "a div b" and ?j = "a mod b"
  have j: "1 \<le> ?j" "?j \<le> b - 1" using False assms(3) pos_mod_bound [of b a] pos_mod_sign [of b a]
    by linarith+
  have bpos: "(0::rat) < of_int b" using assms(3) by simp
  have "a = b * ?k + ?j" by simp
  then have "(of_int a :: rat) = of_int b * of_int ?k + of_int ?j"
    by (metis of_int_add of_int_mult)
  then have x: "?x = of_int ?k + of_int ?j / of_int b"
    using bpos by (simp add: field_simps)
  have apos: "0 < a" using False assms(1) by (cases "a = 0") simp_all
  then have xpos: "0 < ?x" using bpos by simp
  have "(of_int a :: rat) < 2 ^ 53" using assms(2) by (rule less_pow2_rat)
  then have "?x / 2 ^ 53 < 1 / of_int b"
    using bpos by (simp add: field_simps)
  with fl_error [OF xpos] have err: "\<bar>fl ?x - ?x\<bar> < 1 / of_int b" by linarith
  have lo: "of_int ?k + 1 / of_int b \<le> ?x"
    unfolding x using j(1) bpos by (simp add: divide_right_mono)
  have "(of_int ?j :: rat) \<le> of_int b - 1" using j(2) by (metis of_int_1 of_int_diff of_int_le_iff)
  then have hi: "?x + 1 / of_int b \<le> of_int ?k + 1"
    unfolding x using bpos by (simp add: field_simps)
  from err lo hi have "of_int ?k \<le> fl ?x" "fl ?x < of_int ?k + 1" by linarith+
  then have "\<lfloor>fl ?x\<rfloor> = ?k" by (intro floor_unique) simp_all
  then show ?thesis by (simp add: Math_floor_def js_div_def)
qed

section \<open>Properties of the embed builder\<close>

declare decimal_digits.simps [simp del]

lemma js_rem_nonneg: "0 \<le> a \<Longrightarrow> 0 < b \<Longrightarrow> js_rem a b = a mod b"
  by (cases "a = 0") (simp_all add: js_rem_def)

lemma some_unit_populated:
  fixes s :: int
  assumes "0 < s" and "s mod 60 = 0"
  shows "0 < s div 3600 \<or> 0 < (s mod 3600) div 60"
proof (cases "0 < s div 3600")
  case False
  with assms(1) have "s div 3600 = 0" using pos_imp_zdiv_nonneg_iff [of 3600 s] by simp
  then have small: "s mod 3600 = s" using mod_eq_self_iff_div_eq_0 by blast
  from assms have "60 \<le> s" by fastforce
  then have "1 \<le> s div 60" by simp
  with small show ?thesis by simp
qed simp

text \<open>
  Claim C7. For a whole number of seconds \<open>s\<close> from 0 up to \<open>2^53\<close> (the integers
  that are JavaScript numbers), \<^verbatim>\<open>formatTime\<close> splits \<open>s\<close> into hours, minutes and seconds,
  \<open>s = 3600 h + 60 m + sec\<close>, and prints the units that are not zero, in this order,
  joined by a space: so the lowest unit that is not zero is always printed, and the zero
  units are not. For 0 and for an absent argument it prints \<^verbatim>\<open>0s\<close>. The four examples of
  the specification hold.
\<close>

theorem C7_formatTime:
  assumes "0 \<le> s" and "s < 2 ^ 53"
  shows "formatTime (Some s) =
           (if s = 0 then ''0s''
            else join '' ''
              ((if s div 3600 \<noteq> 0 then [int_to_string (s div 3600) @ ''h''] else []) @
               (if (s mod 3600) div 60 \<noteq> 0 then [int_to_string ((s mod 3600) div 60) @ ''m''] else []) @
               (if s mod 60 \<noteq> 0 then [int_to_string (s mod 60) @ ''s''] else []))) \<and>
         s = 3600 * (s div 3600) + 60 * ((s mod 3600) div 60) + s mod 60 \<and>
         formatTime None = ''0s'' \<and> formatTime (Some 0) = ''0s'' \<and>
         formatTime (Some 45) = ''45s'' \<and> formatTime (Some 3661) = ''1h 1m 1s'' \<and>
         formatTime (Some 7200) = ''2h''"
proof -
  have h: "Math_floor (js_div (of_int s) 3600) = s div 3600"
    using floor_js_div [OF assms, of 3600] by simp
  have r: "js_rem s 3600 = s mod 3600" "js_rem s 60 = s mod 60"
    using assms(1) by (simp_all add: js_rem_nonneg)
  have "0 \<le> s mod 3600" "s mod 3600 < 2 ^ 53" by simp_all
  from floor_js_div [OF this, of 60]
  have m: "Math_floor (js_div (of_int (s mod 3600)) 60) = (s mod 3600) div 60" by simp
  have nn: "0 \<le> s div 3600" "0 \<le> (s mod 3600) div 60" "0 \<le> s mod 60"
    using assms(1) by (simp_all add: pos_imp_zdiv_nonneg_iff)
  have main: "formatTime (Some s) =
           (if s = 0 then ''0s''
            else join '' ''
              ((if s div 3600 \<noteq> 0 then [int_to_string (s div 3600) @ ''h''] else []) @
               (if (s mod 3600) div 60 \<noteq> 0 then [int_to_string ((s mod 3600) div 60) @ ''m''] else []) @
               (if s mod 60 \<noteq> 0 then [int_to_string (s mod 60) @ ''s''] else [])))"
  proof (cases "s = 0")
    case True
    then show ?thesis by (simp add: formatTime_def)
  next
    case False
    with assms(1) have pos: "0 < s" by simp
    let ?P1 = "if s div 3600 \<noteq> 0 then [int_to_string (s div 3600) @ ''h''] else []"
    let ?P2 = "if (s mod 3600) div 60 \<noteq> 0 then [int_to_string ((s mod 3600) div 60) @ ''m''] else []"
    have c1: "(0 < s div 3600) = (s div 3600 \<noteq> 0)" using nn(1) by linarith
    have c2: "(0 < (s mod 3600) div 60) = ((s mod 3600) div 60 \<noteq> 0)" using nn(2) by linarith
    have c3: "(0 < s mod 60 \<or> ?P1 @ ?P2 = []) = (s mod 60 \<noteq> 0)"
    proof (cases "s mod 60 = 0")
      case True
      from some_unit_populated [OF pos True] show ?thesis using True by auto
    next
      case False
      with nn(3) have "0 < s mod 60" by linarith
      with False show ?thesis by blast
    qed
    have "formatTime (Some s) =
        join '' '' ((?P1 @ ?P2) @
          (if 0 < s mod 60 \<or> ?P1 @ ?P2 = [] then [int_to_string (s mod 60) @ ''s''] else []))"
      using False by (simp only: formatTime_def option.case if_False h r m Let_def c1 c2)
    then show ?thesis using False by (simp only: c3 if_False append_assoc)
  qed
  have dec: "s = 3600 * (s div 3600) + 60 * ((s mod 3600) div 60) + s mod 60"
  proof -
    have "s = 3600 * (s div 3600) + s mod 3600" by simp
    moreover have "s mod 3600 = 60 * (s mod 3600 div 60) + s mod 3600 mod 60" by simp
    moreover have "s mod 3600 mod 60 = s mod 60" by (simp add: mod_mod_cancel)
    ultimately show ?thesis by linarith
  qed
  have e0: "formatTime None = ''0s''" "formatTime (Some 0) = ''0s''"
    by (simp_all add: formatTime_def)
  have e1: "formatTime (Some 45) = ''45s''" by code_simp
  have e2: "formatTime (Some 3661) = ''1h 1m 1s''" by code_simp
  have e3: "formatTime (Some 7200) = ''2h''" by code_simp
  from main dec e0 e1 e2 e3 show ?thesis by (intro conjI)
qed

text \<open>Three durations within the range, by the theorem.\<close>

theorem C7_formatTime_witness:
  "formatTime (Some 3725) = ''1h 2m 5s'' \<and> formatTime (Some 3600) = ''1h'' \<and>
   formatTime (Some 3605) = ''1h 5s''"
proof -
  have b: "(0::int) \<le> 3725" "(3725::int) < 2 ^ 53" "(0::int) \<le> 3600" "(3600::int) < 2 ^ 53"
    "(0::int) \<le> 3605" "(3605::int) < 2 ^ 53" by simp_all
  have "formatTime (Some 3725) = ''1h 2m 5s''"
    using C7_formatTime [OF b(1,2), THEN conjunct1]
    by (simp add: int_to_string_def decimal_digits.simps)
  moreover have "formatTime (Some 3600) = ''1h''"
    using C7_formatTime [OF b(3,4), THEN conjunct1]
    by (simp add: int_to_string_def decimal_digits.simps)
  moreover have "formatTime (Some 3605) = ''1h 5s''"
    using C7_formatTime [OF b(5,6), THEN conjunct1]
    by (simp add: int_to_string_def decimal_digits.simps)
  ultimately show ?thesis by (intro conjI)
qed

lemma comparePlayers_rank: "comparePlayers a b \<le> 0 \<longleftrightarrow> sort_rank a \<le> sort_rank b"
  by (auto simp: comparePlayers_def sort_rank_def Let_def)

lemma sort_insert_rank: "sort_insert comparePlayers x ys = insort_key sort_rank x ys"
  by (induction ys) (simp_all add: comparePlayers_rank)

lemma js_sort_rank: "js_sort comparePlayers xs = sort_key sort_rank xs"
  by (induction xs) (simp_all add: js_sort_def sort_key_def sort_insert_rank)

lemma trim_empty: "trim s = [] \<longleftrightarrow> (\<forall>c \<in> set s. is_whitespace c)"
proof
  assume "trim s = []"
  then have all: "\<forall>c \<in> set (dropWhile is_whitespace s). is_whitespace c"
    by (simp add: trim_def dropWhile_eq_Nil_conv)
  have "dropWhile is_whitespace s = []"
  proof (rule ccontr)
    assume ne: "dropWhile is_whitespace s \<noteq> []"
    then have "\<not> is_whitespace (hd (dropWhile is_whitespace s))" by (rule hd_dropWhile)
    moreover from ne have "hd (dropWhile is_whitespace s) \<in> set (dropWhile is_whitespace s)"
      by (rule hd_in_set)
    ultimately show False using all by blast
  qed
  then show "\<forall>c \<in> set s. is_whitespace c" by (simp only: dropWhile_eq_Nil_conv)
next
  assume "\<forall>c \<in> set s. is_whitespace c"
  then have d: "dropWhile is_whitespace s = []" by (simp only: dropWhile_eq_Nil_conv)
  show "trim s = []" unfolding trim_def d by simp
qed

lemma has_name_iff:
  "has_name p \<longleftrightarrow> (\<exists>n. name p = Some n \<and> (\<exists>c \<in> set n. \<not> is_whitespace c))"
  by (auto simp: has_name_def trim_empty split: option.splits)

lemma sorted_order:
  assumes "i < j" and "j < length (sortedPlayers sd)"
  shows "number_or (score (sortedPlayers sd ! j)) 0 \<le> number_or (score (sortedPlayers sd ! i)) 0 \<and>
         (number_or (score (sortedPlayers sd ! i)) 0 = number_or (score (sortedPlayers sd ! j)) 0 \<longrightarrow>
            (number_or (score (sortedPlayers sd ! i)) 0 = 0 \<longrightarrow>
               number_or (time (sortedPlayers sd ! j)) 0 \<le> number_or (time (sortedPlayers sd ! i)) 0) \<and>
            (number_or (score (sortedPlayers sd ! i)) 0 \<noteq> 0 \<longrightarrow>
               number_or (time (sortedPlayers sd ! i)) 0 \<le> number_or (time (sortedPlayers sd ! j)) 0))"
proof -
  let ?xs = "sortedPlayers sd"
  have "sorted (map sort_rank ?xs)"
    by (simp add: sortedPlayers_def js_sort_rank)
  with assms have "map sort_rank ?xs ! i \<le> map sort_rank ?xs ! j"
    by (intro sorted_nth_mono) simp_all
  with assms have "sort_rank (?xs ! i) \<le> sort_rank (?xs ! j)" by simp
  then show ?thesis by (auto simp: sort_rank_def split: if_splits)
qed

text \<open>
  The fields of the embed: the two status fields, then, when a player has a name, the
  three columns, each with one line for every player of the sorted list, in its order.
\<close>

lemma named_player:
  "has_name p \<Longrightarrow> string_or (name p) [] = the (name p)"
  by (auto simp: has_name_def string_or_def split: option.splits)

lemma sortedPlayers_named: "p \<in> set (sortedPlayers sd) \<Longrightarrow> has_name p"
proof -
  assume p: "p \<in> set (sortedPlayers sd)"
  have "mset (sortedPlayers sd) = mset (players sd)"
    by (simp add: sortedPlayers_def js_sort_rank)
  then have "set (sortedPlayers sd) = set (players sd)" by (rule mset_eq_setD)
  with p show ?thesis by (auto simp: players_def split: option.splits)
qed

lemma sortedPlayers_empty: "sortedPlayers sd = [] \<longleftrightarrow> players sd = []"
proof -
  have "mset (sortedPlayers sd) = mset (players sd)"
    by (simp add: sortedPlayers_def js_sort_rank)
  then show ?thesis by (metis mset_zero_iff)
qed

lemma rendered_columns:
  assumes "createServerEmbed sd nextRefresh now_iso = Inr e"
  shows "take 2 (embed_fields e) =
           status_fields sd (concat (replicate (nat (filledBars sd)) full_block) @
             concat (replicate (nat (progressBarLength - filledBars sd)) light_shade)) nextRefresh"
    and "drop 2 (embed_fields e) =
      (if sortedPlayers sd = [] then []
       else
         [\<lparr>field_name = ''Name'',
           field_value = join [CHR 0x0A] (map (\<lambda>p. the (name p)) (sortedPlayers sd)),
           inline = True\<rparr>,
          \<lparr>field_name = ''Score'',
           field_value =
             join [CHR 0x0A] (map (\<lambda>p. int_to_string (number_or (score p) 0)) (sortedPlayers sd)),
           inline = True\<rparr>,
          \<lparr>field_name = ''Time Played'',
           field_value =
             join [CHR 0x0A] (map (\<lambda>p. formatTime (Some (number_or (time p) 0))) (sortedPlayers sd)),
           inline = True\<rparr>])"
proof -
  obtain bar where bar: "progressBar sd = Inr bar"
    using assms by (cases "progressBar sd") (simp_all add: createServerEmbed_def)
  then have bar_eq: "bar = concat (replicate (nat (filledBars sd)) full_block) @
             concat (replicate (nat (progressBarLength - filledBars sd)) light_shade)"
    by (auto simp: progressBar_def repeat_def split: if_splits)
  from assms bar have f: "embed_fields e = status_fields sd bar nextRefresh @
      (if players sd \<noteq> [] then player_table (sortedPlayers sd) else [])"
    by (auto simp: createServerEmbed_def)
  have len: "length (status_fields sd bar nextRefresh) = 2"
    by (simp add: status_fields_def)
  show "take 2 (embed_fields e) =
           status_fields sd (concat (replicate (nat (filledBars sd)) full_block) @
             concat (replicate (nat (progressBarLength - filledBars sd)) light_shade)) nextRefresh"
    using f len by (simp add: bar_eq)
  have names: "map (\<lambda>p. string_or (name p) []) (sortedPlayers sd) =
      map (\<lambda>p. the (name p)) (sortedPlayers sd)"
    by (rule map_cong [OF refl]) (simp add: named_player sortedPlayers_named)
  show "drop 2 (embed_fields e) =
      (if sortedPlayers sd = [] then []
       else
         [\<lparr>field_name = ''Name'',
           field_value = join [CHR 0x0A] (map (\<lambda>p. the (name p)) (sortedPlayers sd)),
           inline = True\<rparr>,
          \<lparr>field_name = ''Score'',
           field_value =
             join [CHR 0x0A] (map (\<lambda>p. int_to_string (number_or (score p) 0)) (sortedPlayers sd)),
           inline = True\<rparr>,
          \<lparr>field_name = ''Time Played'',
           field_value =
             join [CHR 0x0A] (map (\<lambda>p. formatTime (Some (number_or (time p) 0))) (sortedPlayers sd)),
           inline = True\<rparr>])"
    using f len by (simp add: sortedPlayers_empty player_table_def names)
qed

text \<open>The embed of the example of the specification.\<close>

lemma spec_server_sorted:
  "sortedPlayers spec_server =
     [\<lparr>name = Some ''p4'', score = Some 5, time = Some 1\<rparr>,
      \<lparr>name = Some ''p3'', score = Some 5, time = Some 3\<rparr>,
      \<lparr>name = Some ''p2'', score = Some 0, time = Some 20\<rparr>,
      \<lparr>name = Some ''p1'', score = Some 0, time = Some 10\<rparr>]"
  by (simp add: sortedPlayers_def players_def spec_server_def spec_players_def has_name_def trim_def
      is_whitespace_def js_sort_def comparePlayers_def number_or_def)

lemma spec_server_bar: "filledBars spec_server = 7"
  by code_simp

lemma short_times:
  "formatTime (Some 1) = ''1s''" "formatTime (Some 3) = ''3s''"
  "formatTime (Some 20) = ''20s''" "formatTime (Some 10) = ''10s''"
  by code_simp+

lemma small_numbers:
  "int_to_string 5 = ''5''" "int_to_string 0 = ''0''"
  by (simp_all add: int_to_string_def decimal_digits.simps)

lemma spec_server_rendered:
  "\<exists>e. createServerEmbed spec_server nextRefresh now_iso = Inr e \<and>
       drop 2 (embed_fields e) =
         [\<lparr>field_name = ''Name'',
           field_value = ''p4'' @ [CHR 0x0A] @ ''p3'' @ [CHR 0x0A] @ ''p2'' @ [CHR 0x0A] @ ''p1'',
           inline = True\<rparr>,
          \<lparr>field_name = ''Score'',
           field_value = ''5'' @ [CHR 0x0A] @ ''5'' @ [CHR 0x0A] @ ''0'' @ [CHR 0x0A] @ ''0'',
           inline = True\<rparr>,
          \<lparr>field_name = ''Time Played'',
           field_value = ''1s'' @ [CHR 0x0A] @ ''3s'' @ [CHR 0x0A] @ ''20s'' @ [CHR 0x0A] @ ''10s'',
           inline = True\<rparr>]"
proof -
  have "progressBar spec_server \<noteq> Inl RangeError"
    by (simp add: progressBar_def repeat_def spec_server_bar progressBarLength_def)
  then obtain e where e: "createServerEmbed spec_server nextRefresh now_iso = Inr e"
    by (cases "progressBar spec_server") (auto simp: createServerEmbed_def intro: js_error.exhaust)
  from rendered_columns(2) [OF e] show ?thesis
    by (simp add: e spec_server_sorted number_or_def short_times small_numbers)
qed

lemma ex_server_bar: "filledBars ex_server = 10"
  by code_simp

text \<open>
  Claim C6. The players of the table are the players of \<^verbatim>\<open>humanData\<close> whose name has a
  character that is not white space, each as often as it is listed; every other player is
  left out. In the table a player that comes earlier has a score at least as high as one
  that comes later; of two players with the same score, the earlier one has been connected
  at least as long when the score is 0, and at most as long when it is not. The embed
  renders the table in three fields after its two status fields: \<^verbatim>\<open>Name\<close>, \<^verbatim>\<open>Score\<close> and
  \<^verbatim>\<open>Time Played\<close> hold, joined by line feeds, the names, the scores in decimal and the
  formatted connection times of these players, in this order; without such players there
  are no such fields. The specification's example sorts as it says, and the three fields
  of its embed list the players in that order.
\<close>

theorem C6_player_table_order:
  "mset (sortedPlayers sd) =
     mset (filter has_name (case humanData sd of None \<Rightarrow> [] | Some ps \<Rightarrow> ps)) \<and>
   (\<forall>p \<in> set (sortedPlayers sd). \<exists>n. name p = Some n \<and> (\<exists>c \<in> set n. \<not> is_whitespace c)) \<and>
   (\<forall>i j. i < j \<and> j < length (sortedPlayers sd) \<longrightarrow>
      number_or (score (sortedPlayers sd ! j)) 0 \<le> number_or (score (sortedPlayers sd ! i)) 0 \<and>
      (number_or (score (sortedPlayers sd ! i)) 0 = number_or (score (sortedPlayers sd ! j)) 0 \<longrightarrow>
         (number_or (score (sortedPlayers sd ! i)) 0 = 0 \<longrightarrow>
            number_or (time (sortedPlayers sd ! j)) 0 \<le> number_or (time (sortedPlayers sd ! i)) 0) \<and>
         (number_or (score (sortedPlayers sd ! i)) 0 \<noteq> 0 \<longrightarrow>
            number_or (time (sortedPlayers sd ! i)) 0 \<le> number_or (time (sortedPlayers sd ! j)) 0))) \<and>
   (\<forall>e nextRefresh now_iso. createServerEmbed sd nextRefresh now_iso = Inr e \<longrightarrow>
      drop 2 (embed_fields e) =
        (if sortedPlayers sd = [] then []
         else
           [\<lparr>field_name = ''Name'',
             field_value = join [CHR 0x0A] (map (\<lambda>p. the (name p)) (sortedPlayers sd)),
             inline = True\<rparr>,
            \<lparr>field_name = ''Score'',
             field_value =
               join [CHR 0x0A]
                 (map (\<lambda>p. int_to_string (number_or (score p) 0)) (sortedPlayers sd)),
             inline = True\<rparr>,
            \<lparr>field_name = ''Time Played'',
             field_value =
               join [CHR 0x0A]
                 (map (\<lambda>p. formatTime (Some (number_or (time p) 0))) (sortedPlayers sd)),
             inline = True\<rparr>])) \<and>
   js_sort comparePlayers spec_players =
     [\<lparr>name = Some ''p4'', score = Some 5, time = Some 1\<rparr>,
      \<lparr>name = Some ''p3'', score = Some 5, time = Some 3\<rparr>,
      \<lparr>name = Some ''p2'', score = Some 0, time = Some 20\<rparr>,
      \<lparr>name = Some ''p1'', score = Some 0, time = Some 10\<rparr>] \<and>
   (\<exists>e. createServerEmbed spec_server nextRefresh now_iso = Inr e \<and>
       drop 2 (embed_fields e) =
         [\<lparr>field_name = ''Name'',
           field_value = ''p4'' @ [CHR 0x0A] @ ''p3'' @ [CHR 0x0A] @ ''p2'' @ [CHR 0x0A] @ ''p1'',
           inline = True\<rparr>,
          \<lparr>field_name = ''Score'',
           field_value = ''5'' @ [CHR 0x0A] @ ''5'' @ [CHR 0x0A] @ ''0'' @ [CHR 0x0A] @ ''0'',
           inline = True\<rparr>,
          \<lparr>field_name = ''Time Played'',
           field_value = ''1s'' @ [CHR 0x0A] @ ''3s'' @ [CHR 0x0A] @ ''20s'' @ [CHR 0x0A] @ ''10s'',
           inline = True\<rparr>])"
proof -
  have m: "mset (sortedPlayers sd) = mset (players sd)"
    by (simp add: sortedPlayers_def js_sort_rank)
  have pl: "players sd = filter has_name (case humanData sd of None \<Rightarrow> [] | Some ps \<Rightarrow> ps)"
    by (simp add: players_def split: option.splits)
  have a: "mset (sortedPlayers sd) =
      mset (filter has_name (case humanData sd of None \<Rightarrow> [] | Some ps \<Rightarrow> ps))"
    using m pl by simp
  have "\<forall>p \<in> set (sortedPlayers sd). has_name p" by (simp add: sortedPlayers_named)
  then have b: "\<forall>p \<in> set (sortedPlayers sd).
      \<exists>n. name p = Some n \<and> (\<exists>c \<in> set n. \<not> is_whitespace c)"
    by (simp add: has_name_iff)
  have d: "js_sort comparePlayers spec_players =
     [\<lparr>name = Some ''p4'', score = Some 5, time = Some 1\<rparr>,
      \<lparr>name = Some ''p3'', score = Some 5, time = Some 3\<rparr>,
      \<lparr>name = Some ''p2'', score = Some 0, time = Some 20\<rparr>,
      \<lparr>name = Some ''p1'', score = Some 0, time = Some 10\<rparr>]"
    by (simp add: spec_players_def js_sort_def comparePlayers_def number_or_def)
  from a b d sorted_order [of _ _ sd] rendered_columns(2) [of sd]
    spec_server_rendered [of nextRefresh now_iso]
  show ?thesis by blast
qed

text \<open>
  The six players of the example server: four are listed, in the order of the claim, and
  the three columns of the embed print them so.
\<close>

theorem C6_player_table_order_witness:
  "length (sortedPlayers ex_server) = 4 \<and>
   map name (sortedPlayers ex_server) = [Some ''dee'', Some ''cyd'', Some ''bob'', Some ''ann''] \<and>
   number_or (score (sortedPlayers ex_server ! 2)) 0 \<le> number_or (score (sortedPlayers ex_server ! 1)) 0 \<and>
   number_or (time (sortedPlayers ex_server ! 0)) 0 \<le> number_or (time (sortedPlayers ex_server ! 1)) 0 \<and>
   number_or (time (sortedPlayers ex_server ! 3)) 0 \<le> number_or (time (sortedPlayers ex_server ! 2)) 0 \<and>
   map field_value
     (drop 2 (embed_fields
        (projr (createServerEmbed ex_server 1700000180 ''2023-11-14T22:13:20.000Z'')))) =
     [''dee'' @ [CHR 0x0A] @ ''cyd'' @ [CHR 0x0A] @ ''bob'' @ [CHR 0x0A] @ ''ann'',
      ''5'' @ [CHR 0x0A] @ ''5'' @ [CHR 0x0A] @ ''0'' @ [CHR 0x0A] @ ''0'',
      ''1s'' @ [CHR 0x0A] @ ''3s'' @ [CHR 0x0A] @ ''20s'' @ [CHR 0x0A] @ ''10s'']"
proof -
  have s: "sortedPlayers ex_server =
     [\<lparr>name = Some ''dee'', score = Some 5, time = Some 1\<rparr>,
      \<lparr>name = Some ''cyd'', score = Some 5, time = Some 3\<rparr>,
      \<lparr>name = Some ''bob'', score = Some 0, time = Some 20\<rparr>,
      \<lparr>name = Some ''ann'', score = Some 0, time = Some 10\<rparr>]"
    by (simp add: sortedPlayers_def players_def ex_server_def ex_players_def has_name_def trim_def
        is_whitespace_def js_sort_def comparePlayers_def number_or_def)
  have len: "length (sortedPlayers ex_server) = 4" and names:
    "map name (sortedPlayers ex_server) = [Some ''dee'', Some ''cyd'', Some ''bob'', Some ''ann'']"
    by (simp_all add: s)
  note ord = C6_player_table_order [of ex_server, THEN conjunct2, THEN conjunct2, THEN conjunct1,
      rule_format]
  have i12: "(1::nat) < 2 \<and> 2 < length (sortedPlayers ex_server)"
    and i01: "(0::nat) < 1 \<and> 1 < length (sortedPlayers ex_server)"
    and i23: "(2::nat) < 3 \<and> 3 < length (sortedPlayers ex_server)"
    by (simp_all add: len)
  have sc: "number_or (score (sortedPlayers ex_server ! 0)) 0 = number_or (score (sortedPlayers ex_server ! 1)) 0"
    "number_or (score (sortedPlayers ex_server ! 0)) 0 \<noteq> 0"
    "number_or (score (sortedPlayers ex_server ! 2)) 0 = number_or (score (sortedPlayers ex_server ! 3)) 0"
    "number_or (score (sortedPlayers ex_server ! 2)) 0 = 0"
    by (simp_all add: s number_or_def)
  from ord [OF i12] have a: "number_or (score (sortedPlayers ex_server ! 2)) 0 \<le>
      number_or (score (sortedPlayers ex_server ! 1)) 0" by (rule conjunct1)
  from ord [OF i01] sc(1,2) have b: "number_or (time (sortedPlayers ex_server ! 0)) 0 \<le>
      number_or (time (sortedPlayers ex_server ! 1)) 0" by blast
  from ord [OF i23] sc(3,4) have c: "number_or (time (sortedPlayers ex_server ! 3)) 0 \<le>
      number_or (time (sortedPlayers ex_server ! 2)) 0" by blast
  let ?call = "createServerEmbed ex_server 1700000180 ''2023-11-14T22:13:20.000Z''"
  have "progressBar ex_server \<noteq> Inl RangeError"
    by (simp add: progressBar_def repeat_def ex_server_bar progressBarLength_def)
  then obtain e where e: "?call = Inr e"
    by (cases "progressBar ex_server") (auto simp: createServerEmbed_def intro: js_error.exhaust)
  note cols = C6_player_table_order [of ex_server, THEN conjunct2, THEN conjunct2, THEN conjunct2,
      THEN conjunct1, rule_format, OF e]
  have d: "map field_value (drop 2 (embed_fields (projr ?call))) =
     [''dee'' @ [CHR 0x0A] @ ''cyd'' @ [CHR 0x0A] @ ''bob'' @ [CHR 0x0A] @ ''ann'',
      ''5'' @ [CHR 0x0A] @ ''5'' @ [CHR 0x0A] @ ''0'' @ [CHR 0x0A] @ ''0'',
      ''1s'' @ [CHR 0x0A] @ ''3s'' @ [CHR 0x0A] @ ''20s'' @ [CHR 0x0A] @ ''10s'']"
    unfolding e using cols by (simp add: s number_or_def short_times small_numbers)
  from len names a b c d show ?thesis by (intro conjI)
qed

section \<open>Rounding a scaled quotient\<close>

lemma fl_pos: assumes "0 < x" shows "0 < fl x"
proof -
  have "x / 2 ^ 53 < x" using assms by (simp add: field_simps)
  with fl_error [OF assms] show ?thesis by linarith
qed

lemma scaled_error:
  fixes y c :: rat
  assumes "0 < y" and "0 < c"
  shows "\<bar>fl (fl y * c) - y * c\<bar> \<le> y * c * (2 / 2 ^ 53 + 1 / 2 ^ 106)"
proof -
  let ?e = "(1::rat) / 2 ^ 53"
  let ?q = "fl y"
  have q: "0 < ?q" using fl_pos [OF assms(1)] .
  have e1: "\<bar>?q - y\<bar> \<le> y * ?e" using fl_error [OF assms(1)] by simp
  have qc: "0 < ?q * c" using q assms(2) by simp
  have e2: "\<bar>fl (?q * c) - ?q * c\<bar> \<le> ?q * c * ?e" using fl_error [OF qc] by simp
  have "\<bar>?q * c - y * c\<bar> = \<bar>?q - y\<bar> * c"
    using assms(2) by (simp add: abs_mult left_diff_distrib [symmetric])
  also have "\<dots> \<le> y * ?e * c" using e1 assms(2) by (intro mult_right_mono) simp_all
  finally have e3: "\<bar>?q * c - y * c\<bar> \<le> y * c * ?e" by (simp add: mult_ac)
  then have "?q * c \<le> y * c + y * c * ?e" by linarith
  then have "?q * c * ?e \<le> (y * c + y * c * ?e) * ?e"
    by (intro mult_right_mono) simp_all
  with e2 have e4: "\<bar>fl (?q * c) - ?q * c\<bar> \<le> (y * c + y * c * ?e) * ?e" by linarith
  have "\<bar>fl (?q * c) - y * c\<bar> \<le> \<bar>fl (?q * c) - ?q * c\<bar> + \<bar>?q * c - y * c\<bar>" by linarith
  also have "\<dots> \<le> (y * c + y * c * ?e) * ?e + y * c * ?e" using e3 e4 by linarith
  also have "\<dots> = y * c * (2 / 2 ^ 53 + 1 / 2 ^ 106)"
    by (simp add: algebra_simps)
  finally show ?thesis .
qed

lemma round_near:
  fixes r :: rat and n d :: int
  assumes "0 < d"
    and "\<bar>r - of_int n / of_int d\<bar> < 1 / (2 * of_int d)"
    and "\<not> 2 * d dvd 2 * n + d"
  shows "Math_round r = Math_round (of_int n / of_int d)"
proof -
  let ?N = "2 * n + d"
  let ?K = "?N div (2 * d)"
  let ?j = "?N mod (2 * d)"
  have dpos: "(0::rat) < of_int d" using assms(1) by simp
  have z: "(of_int n :: rat) / of_int d + 1 / 2 = of_int ?N / (2 * of_int d)"
    using dpos by (simp add: field_simps)
  have jn0: "?j \<noteq> 0" using assms(3) by (simp add: dvd_eq_mod_eq_0)
  have j: "1 \<le> ?j" "?j \<le> 2 * d - 1"
    using jn0 assms(1) pos_mod_sign [of "2 * d" ?N] pos_mod_bound [of "2 * d" ?N] by linarith+
  have Ndec: "?N = 2 * d * ?K + ?j" by simp
  have lo: "(of_int (2 * d * ?K + 1) :: rat) \<le> of_int ?N"
  proof -
    have "2 * d * ?K + 1 \<le> ?N" using j(1) Ndec by linarith
    then show ?thesis by (simp only: of_int_le_iff)
  qed
  have hi: "(of_int ?N :: rat) \<le> of_int (2 * d * ?K + 2 * d - 1)"
  proof -
    have "?N \<le> 2 * d * ?K + 2 * d - 1" using j(2) Ndec by linarith
    then show ?thesis by (simp only: of_int_le_iff)
  qed
  have lo': "of_int ?K + 1 / (2 * of_int d) \<le> (of_int ?N :: rat) / (2 * of_int d)"
  proof -
    have "(of_int (2 * d * ?K + 1) :: rat) / (2 * of_int d) \<le> of_int ?N / (2 * of_int d)"
      using lo dpos by (intro divide_right_mono) simp_all
    moreover have "(of_int (2 * d * ?K + 1) :: rat) / (2 * of_int d) = of_int ?K + 1 / (2 * of_int d)"
      using dpos by (simp add: add_divide_distrib)
    ultimately show ?thesis by simp
  qed
  have hi': "(of_int ?N :: rat) / (2 * of_int d) \<le> of_int ?K + 1 - 1 / (2 * of_int d)"
  proof -
    have "(of_int ?N :: rat) / (2 * of_int d) \<le> of_int (2 * d * ?K + 2 * d - 1) / (2 * of_int d)"
      using hi dpos by (intro divide_right_mono) simp_all
    moreover have "(of_int (2 * d * ?K + 2 * d - 1) :: rat) / (2 * of_int d) =
        of_int ?K + 1 - 1 / (2 * of_int d)"
      using dpos by (simp add: add_divide_distrib diff_divide_distrib)
    ultimately show ?thesis by simp
  qed
  have exact: "\<lfloor>(of_int ?N :: rat) / (2 * of_int d)\<rfloor> = ?K"
  proof (rule floor_unique)
    have p: "(0::rat) < 1 / (2 * of_int d)" using dpos by simp
    with lo' show "of_int ?K \<le> (of_int ?N :: rat) / (2 * of_int d)" by linarith
    note p
    with hi' show "(of_int ?N :: rat) / (2 * of_int d) < of_int ?K + 1" by linarith
  qed
  from assms(2) have near: "\<bar>(r + 1 / 2) - of_int ?N / (2 * of_int d)\<bar> < 1 / (2 * of_int d)"
    unfolding z [symmetric] by simp
  have "of_int ?K \<le> r + 1 / 2" "r + 1 / 2 < of_int ?K + 1"
    using near lo' hi' by linarith+
  then have "\<lfloor>r + 1 / 2\<rfloor> = ?K" by (intro floor_unique) simp_all
  then show ?thesis unfolding Math_round_def z exact .
qed

lemma scaled_zero: "js_mul (js_div 0 d) c = 0"
  by (simp add: js_mul_def js_div_def fl_def)

lemma scaled_nonneg:
  assumes "0 \<le> h" and "0 < d" and "0 < c"
  shows "0 \<le> js_mul (js_div (of_int h) (of_int d)) (of_int c)"
proof -
  have "(0::rat) \<le> of_int h / of_int d" using assms by simp
  then have "0 \<le> fl (of_int h / of_int d)" by (rule fl_nonneg)
  then have "0 \<le> fl (of_int h / of_int d) * of_int c" using assms(3) by simp
  then show ?thesis unfolding js_mul_def js_div_def by (rule fl_nonneg)
qed

lemma round_scaled:
  fixes h d c :: int
  assumes "0 \<le> h" and "0 < d" and "0 < c" and "c \<le> 100" and "h < 2 ^ 44"
    and "\<not> 2 * d dvd 2 * (c * h) + d"
  shows "Math_round (js_mul (js_div (of_int h) (of_int d)) (of_int c)) =
         Math_round (of_int (c * h) / of_int d)"
proof (cases "h = 0")
  case True
  then show ?thesis by (simp add: scaled_zero)
next
  case False
  with assms(1) have hpos: "0 < h" by simp
  let ?y = "(of_int h :: rat) / of_int d"
  let ?E = "(2::rat) / 2 ^ 53 + 1 / 2 ^ 106"
  have dpos: "(0::rat) < of_int d" using assms(2) by simp
  have y: "0 < ?y" using hpos dpos by simp
  have c: "(0::rat) < of_int c" using assms(3) by simp
  from scaled_error [OF y c]
  have err: "\<bar>js_mul (js_div (of_int h) (of_int d)) (of_int c) - ?y * of_int c\<bar> \<le> ?y * of_int c * ?E"
    by (simp add: js_mul_def js_div_def)
  have "c * h < 100 * 2 ^ 44"
  proof -
    have "c * h \<le> 100 * h" using assms(4) hpos by (intro mult_right_mono) simp_all
    also have "\<dots> < 100 * 2 ^ 44" using assms(5) by simp
    finally show ?thesis .
  qed
  then have "(of_int (c * h) :: rat) < of_int (100 * 2 ^ 44)" by (simp only: of_int_less_iff)
  then have ch: "(of_int (c * h) :: rat) < 100 * 2 ^ 44" by simp
  have "(of_int (c * h) :: rat) * ?E < 100 * 2 ^ 44 * ?E"
    using ch by (intro mult_strict_right_mono) simp_all
  also have "\<dots> < 1 / 2" by simp
  finally have small: "(of_int (c * h) :: rat) * ?E < 1 / 2" .
  have "?y * of_int c * ?E = (of_int (c * h) * ?E) / of_int d"
    by (simp add: mult_ac)
  also have "\<dots> < (1 / 2) / of_int d"
    using small dpos by (intro divide_strict_right_mono) simp_all
  finally have "?y * of_int c * ?E < 1 / (2 * of_int d)" by simp
  with err have near: "\<bar>js_mul (js_div (of_int h) (of_int d)) (of_int c) - ?y * of_int c\<bar> < 1 / (2 * of_int d)"
    by linarith
  have eq: "?y * of_int c = of_int (c * h) / of_int d" by (simp add: mult_ac)
  from near have "\<bar>js_mul (js_div (of_int h) (of_int d)) (of_int c) - of_int (c * h) / of_int d\<bar>
      < 1 / (2 * of_int d)" unfolding eq .
  from round_near [OF assms(2) this assms(6)] show ?thesis .
qed

lemma round_bounded:
  fixes h d c :: int
  assumes "0 \<le> h" and "h \<le> d" and "0 < d" and "0 < c" and "c \<le> 100"
  shows "0 \<le> Math_round (js_mul (js_div (of_int h) (of_int d)) (of_int c)) \<and>
         Math_round (js_mul (js_div (of_int h) (of_int d)) (of_int c)) \<le> c"
proof -
  let ?r = "js_mul (js_div (of_int h) (of_int d)) (of_int c)"
  have nn: "0 \<le> ?r" using scaled_nonneg [OF assms(1,3,4)] .
  then have lo: "0 \<le> Math_round ?r" by (simp add: Math_round_def)
  have "?r < of_int c + 1 / 2"
  proof (cases "h = 0")
    case True
    then show ?thesis using assms(4) by (simp add: scaled_zero)
  next
    case False
    with assms(1) have hpos: "0 < h" by simp
    let ?y = "(of_int h :: rat) / of_int d"
    let ?E = "(2::rat) / 2 ^ 53 + 1 / 2 ^ 106"
    have dpos: "(0::rat) < of_int d" using assms(3) by simp
    have cpos: "(0::rat) < of_int c" using assms(4) by simp
    have y: "0 < ?y" using hpos dpos by simp
    have "(of_int h :: rat) \<le> of_int d" using assms(2) by (simp only: of_int_le_iff)
    then have y1: "?y \<le> 1" using dpos by simp
    from scaled_error [OF y cpos]
    have err: "\<bar>?r - ?y * of_int c\<bar> \<le> ?y * of_int c * ?E"
      by (simp add: js_mul_def js_div_def)
    have "?y * of_int c \<le> 1 * of_int c" using y1 cpos by (intro mult_right_mono) simp_all
    then have yc: "?y * of_int c \<le> of_int c" by simp
    have "?y * of_int c * ?E \<le> of_int c * ?E" using yc by (intro mult_right_mono) simp_all
    with err yc have "?r \<le> of_int c + of_int c * ?E" by linarith
    moreover have "(of_int c :: rat) * ?E < 1 / 2"
    proof -
      have "(of_int c :: rat) \<le> of_int 100" using assms(5) by (simp only: of_int_le_iff)
      then have "(of_int c :: rat) * ?E \<le> 100 * ?E" by (intro mult_right_mono) simp_all
      also have "\<dots> < 1 / 2" by simp
      finally show ?thesis .
    qed
    ultimately show ?thesis by linarith
  qed
  then have "?r + 1 / 2 < of_int (c + 1)" by simp
  then have "\<lfloor>?r + 1 / 2\<rfloor> < c + 1" by (simp only: floor_less_iff)
  with lo show ?thesis by (simp add: Math_round_def)
qed

lemma ties_of_40_a:
  "list_all (\<lambda>K. Math_round (js_mul (js_div (of_int (2 * K - 1)) 80) 40) = K) [1..10]"
  by code_simp

lemma ties_of_40_b:
  "list_all (\<lambda>K. Math_round (js_mul (js_div (of_int (2 * K - 1)) 80) 40) = K) [11..20]"
  by code_simp

lemma ties_of_40_c:
  "list_all (\<lambda>K. Math_round (js_mul (js_div (of_int (2 * K - 1)) 80) 40) = K) [21..30]"
  by code_simp

lemma ties_of_40_d:
  "list_all (\<lambda>K. Math_round (js_mul (js_div (of_int (2 * K - 1)) 80) 40) = K) [31..40]"
  by code_simp

lemma ties_of_40:
  "1 \<le> K \<Longrightarrow> K \<le> 40 \<Longrightarrow> Math_round (js_mul (js_div (of_int (2 * K - 1)) 80) 40) = K"
proof -
  assume "1 \<le> K" and "K \<le> 40"
  then consider "1 \<le> K \<and> K \<le> 10" | "11 \<le> K \<and> K \<le> 20" | "21 \<le> K \<and> K \<le> 30"
    | "31 \<le> K \<and> K \<le> 40"
    by linarith
  then show ?thesis
  proof cases
    case 1
    then have "K \<in> set [1..10]" by (simp only: set_upto atLeastAtMost_iff)
    with ties_of_40_a show ?thesis unfolding list_all_iff by blast
  next
    case 2
    then have "K \<in> set [11..20]" by (simp only: set_upto atLeastAtMost_iff)
    with ties_of_40_b show ?thesis unfolding list_all_iff by blast
  next
    case 3
    then have "K \<in> set [21..30]" by (simp only: set_upto atLeastAtMost_iff)
    with ties_of_40_c show ?thesis unfolding list_all_iff by blast
  next
    case 4
    then have "K \<in> set [31..40]" by (simp only: set_upto atLeastAtMost_iff)
    with ties_of_40_d show ?thesis unfolding list_all_iff by blast
  qed
qed

lemma tie_40:
  fixes h d :: int
  assumes "0 \<le> h" and "h \<le> d" and "0 < d" and "2 * d dvd 2 * (40 * h) + d"
  shows "Math_round (js_mul (js_div (of_int h) (of_int d)) 40) = Math_round (of_int (40 * h) / of_int d)"
proof -
  from assms(4) obtain K where K: "2 * (40 * h) + d = 2 * d * K" by (auto simp: dvd_def)
  then have e: "80 * h = d * (2 * K - 1)" by (simp add: algebra_simps)
  have "0 \<le> d * (2 * K - 1)" using e assms(1) by linarith
  then have "0 \<le> 2 * K - 1" using assms(3) by (simp add: zero_le_mult_iff)
  then have k1: "1 \<le> K" by linarith
  have "d * (2 * K - 1) \<le> d * 80" using e assms(2) by linarith
  then have "2 * K - 1 \<le> 80" using assms(3) by simp
  then have k2: "K \<le> 40" by linarith
  have dpos: "(0::rat) < of_int d" using assms(3) by simp
  have "(of_int (80 * h) :: rat) = of_int (d * (2 * K - 1))" using e by (simp only:)
  then have "(80::rat) * of_int h = of_int d * of_int (2 * K - 1)" by simp
  then have q: "(of_int h :: rat) / of_int d = of_int (2 * K - 1) / 80"
    using dpos by (simp add: field_simps)
  from ties_of_40 [OF k1 k2] have "Math_round (js_mul (js_div (of_int (2 * K - 1)) 80) 40) = K" .
  then have lhs: "Math_round (js_mul (js_div (of_int h) (of_int d)) 40) = K"
    by (simp add: js_div_def q)
  have "(of_int (40 * h) :: rat) / of_int d = 40 * (of_int h / of_int d)" by simp
  also have "\<dots> = of_int K - 1 / 2" unfolding q by simp
  finally have "Math_round (of_int (40 * h) / of_int d) = K"
    by (simp add: Math_round_def)
  with lhs show ?thesis by simp
qed

lemma filled_exact:
  fixes h d :: int
  assumes "0 \<le> h" and "h \<le> d" and "0 < d" and "d < 2 ^ 44"
  shows "Math_round (js_mul (js_div (of_int h) (of_int d)) 40) = Math_round (40 * of_int h / of_int d)"
proof (cases "2 * d dvd 2 * (40 * h) + d")
  case True
  from tie_40 [OF assms(1-3) True] show ?thesis by simp
next
  case False
  have "h < 2 ^ 44" using assms(2,4) by linarith
  from round_scaled [OF assms(1,3) _ _ this False] show ?thesis by simp
qed

lemma playerCount_eq: "playerCount sd = (case numHumans sd of None \<Rightarrow> 0 | Some h \<Rightarrow> h)"
  by (simp add: playerCount_def number_or_def split: option.splits)

lemma maxPlayers_eq:
  "maxPlayers sd = (case maxClients sd of None \<Rightarrow> 24 | Some m \<Rightarrow> if m = 0 then 24 else m)"
  by (simp add: maxPlayers_def number_or_def split: option.splits)

lemma Math_round_zero: "Math_round 0 = 0"
  by code_simp

text \<open>
  Claim C5. For server data with \<^verbatim>\<open>0 \<le> numHumans \<le> maxClients\<close> (integers below \<open>2^44\<close>):
  the capacity percentage is between 0 and 100; \<^verbatim>\<open>filledBars\<close> is
  \<open>40 * numHumans / maxClients\<close> rounded to the nearest integer, a tie going up, as
  \<^verbatim>\<open>Math.round\<close> does (and 0 when \<^verbatim>\<open>maxClients\<close> is 0, where \<^verbatim>\<open>numHumans\<close> is 0 too); the bar is
  \<^verbatim>\<open>filledBars\<close> filled glyphs followed by \<^verbatim>\<open>40 - filledBars\<close> unfilled ones, 40 glyphs in
  all; and \<^verbatim>\<open>createServerEmbed\<close> returns an embed whose first field is this bar.
\<close>

theorem C5_percent_range_and_bar:
  assumes "numHumans sd = Some h" and "maxClients sd = Some m"
    and "0 \<le> h" and "h \<le> m" and "m < 2 ^ 44"
  shows "0 \<le> capacityPercent sd \<and> capacityPercent sd \<le> 100 \<and>
         filledBars sd = (if m = 0 then 0 else Math_round (40 * of_int h / of_int m)) \<and>
         0 \<le> filledBars sd \<and> 0 \<le> 40 - filledBars sd \<and>
         nat (filledBars sd) + nat (40 - filledBars sd) = 40 \<and>
         progressBar sd =
           Inr (concat (replicate (nat (filledBars sd)) full_block) @
                concat (replicate (nat (40 - filledBars sd)) light_shade)) \<and>
         (\<forall>nextRefresh now_iso. \<exists>e. createServerEmbed sd nextRefresh now_iso = Inr e \<and>
            field_value (embed_fields e ! 0) =
              concat (replicate (nat (filledBars sd)) full_block) @
              concat (replicate (nat (40 - filledBars sd)) light_shade))"
proof -
  let ?d = "maxPlayers sd"
  have pc: "playerCount sd = h" using assms(1) by (simp add: playerCount_eq)
  have d: "?d = (if m = 0 then 24 else m)" using assms(2) by (simp add: maxPlayers_eq)
  have dpos: "0 < ?d" and hd: "h \<le> ?d" using assms(3,4) d by (auto split: if_splits)
  from round_bounded [OF assms(3) hd dpos, of 100]
  have percent: "0 \<le> capacityPercent sd \<and> capacityPercent sd \<le> 100"
    by (simp add: capacityPercent_def pc)
  from round_bounded [OF assms(3) hd dpos, of 40]
  have filled: "0 \<le> filledBars sd \<and> filledBars sd \<le> 40"
    by (simp add: filledBars_def progressBarLength_def pc)
  have exact: "filledBars sd = (if m = 0 then 0 else Math_round (40 * of_int h / of_int m))"
  proof (cases "m = 0")
    case True
    with assms(3,4) have "h = 0" by simp
    with True show ?thesis
      by (simp add: filledBars_def pc scaled_zero Math_round_zero)
  next
    case False
    with assms(3,4) have mpos: "0 < m" by simp
    from filled_exact [OF assms(3,4) mpos assms(5)] False show ?thesis
      by (simp add: filledBars_def progressBarLength_def pc d)
  qed
  have bar: "progressBar sd =
      Inr (concat (replicate (nat (filledBars sd)) full_block) @
           concat (replicate (nat (40 - filledBars sd)) light_shade))"
    using filled by (simp add: progressBar_def repeat_def progressBarLength_def)
  have emb: "\<exists>e. createServerEmbed sd nextRefresh now_iso = Inr e \<and>
      field_value (embed_fields e ! 0) =
        concat (replicate (nat (filledBars sd)) full_block) @
        concat (replicate (nat (40 - filledBars sd)) light_shade)" for nextRefresh now_iso
    by (simp add: createServerEmbed_def bar status_fields_def)
  have sum: "nat (filledBars sd) + nat (40 - filledBars sd) = 40" using filled by arith
  have rest: "0 \<le> 40 - filledBars sd" using filled by simp
  from percent filled exact bar emb sum rest show ?thesis by blast
qed

text \<open>Six players of 24: 25 percent, 10 filled glyphs and 30 unfilled.\<close>

theorem C5_percent_range_and_bar_witness:
  "capacityPercent ex_server = 25 \<and> filledBars ex_server = 10 \<and>
   progressBar ex_server =
     Inr (concat (replicate 10 full_block) @ concat (replicate 30 light_shade))"
proof -
  have h: "numHumans ex_server = Some 6" "maxClients ex_server = Some 24"
    "(0::int) \<le> 6" "(6::int) \<le> 24" "(24::int) < 2 ^ 44"
    by (simp_all add: ex_server_def)
  note th = C5_percent_range_and_bar [OF h]
  have r: "Math_round (40 * of_int 6 / of_int 24) = 10" by code_simp
  from th have f: "filledBars ex_server = 10" using r by simp
  from th have "progressBar ex_server =
      Inr (concat (replicate (nat (filledBars ex_server)) full_block) @
           concat (replicate (nat (40 - filledBars ex_server)) light_shade))" by blast
  then have b: "progressBar ex_server =
      Inr (concat (replicate 10 full_block) @ concat (replicate 30 light_shade))"
    unfolding f by simp
  have p: "capacityPercent ex_server = 25" by code_simp
  from p f b show ?thesis by (intro conjI)
qed

text \<open>
  Claim C4, as amended. The divisor is \<^verbatim>\<open>maxClients\<close>, and 24 when \<^verbatim>\<open>maxClients\<close> is 0 or
  absent (\<^verbatim>\<open>serverData.maxClients || 24\<close>). For a player count from 0 up to \<open>2^44\<close> and a
  positive divisor, whenever \<open>100 * playerCount / divisor\<close> is not exactly halfway between
  two integers, the capacity percentage is that quotient rounded to the nearest integer;
  for \<^verbatim>\<open>maxClients \<ge> 1\<close> this is the value the specification words. The second field of the
  rendered embed prints this percentage. (Halfway cases are left open: the source rounds
  the quotient \<^verbatim>\<open>playerCount / maxPlayers\<close> to a binary64 number before it multiplies by
  100.)
\<close>

theorem C4_capacity_percent:
  assumes "0 \<le> playerCount sd" and "playerCount sd < 2 ^ 44" and "0 < maxPlayers sd"
    and "\<not> 2 * maxPlayers sd dvd 200 * playerCount sd + maxPlayers sd"
  shows "playerCount sd = (case numHumans sd of None \<Rightarrow> 0 | Some h \<Rightarrow> h) \<and>
         maxPlayers sd = (case maxClients sd of None \<Rightarrow> 24 | Some m \<Rightarrow> if m = 0 then 24 else m) \<and>
         capacityPercent sd = Math_round (100 * of_int (playerCount sd) / of_int (maxPlayers sd)) \<and>
         (\<forall>m. maxClients sd = Some m \<and> 1 \<le> m \<longrightarrow>
            capacityPercent sd = spec_capacityPercent (playerCount sd) m) \<and>
         (\<forall>e nextRefresh now_iso. createServerEmbed sd nextRefresh now_iso = Inr e \<longrightarrow>
            field_value (embed_fields e ! 1) =
              ''**'' @ int_to_string (playerCount sd) @ ''/'' @ int_to_string (maxPlayers sd) @
              ''** ('' @ int_to_string (capacityPercent sd) @ ''%) - Refreshing <t:'' @
              int_to_string nextRefresh @ '':R>'' @ [CHR 0x0A] @
              ''[Join Now](https://raccoonlagoon.com/connect/'' @
              string_or (serverIP sd) ''Unknown'' @ '')'')"
proof -
  have nt: "\<not> 2 * maxPlayers sd dvd 2 * (100 * playerCount sd) + maxPlayers sd"
    using assms(4) by simp
  from round_scaled [OF assms(1,3) _ _ assms(2) nt]
  have main: "capacityPercent sd = Math_round (100 * of_int (playerCount sd) / of_int (maxPlayers sd))"
    by (simp add: capacityPercent_def)
  have sp: "capacityPercent sd = spec_capacityPercent (playerCount sd) m"
    if "maxClients sd = Some m \<and> 1 \<le> m" for m
  proof -
    from that have "maxPlayers sd = m" "max m 1 = m" by (simp_all add: maxPlayers_eq)
    with main show ?thesis by (simp add: spec_capacityPercent_def)
  qed
  have fld: "field_value (embed_fields e ! 1) =
      ''**'' @ int_to_string (playerCount sd) @ ''/'' @ int_to_string (maxPlayers sd) @
      ''** ('' @ int_to_string (capacityPercent sd) @ ''%) - Refreshing <t:'' @
      int_to_string nextRefresh @ '':R>'' @ [CHR 0x0A] @
      ''[Join Now](https://raccoonlagoon.com/connect/'' @
      string_or (serverIP sd) ''Unknown'' @ '')''"
    if r: "createServerEmbed sd nextRefresh now_iso = Inr e" for e nextRefresh now_iso
  proof (cases "progressBar sd")
    case (Inl err)
    with r show ?thesis by (simp add: createServerEmbed_def)
  next
    case (Inr bar)
    with r have "embed_fields e = status_fields sd bar nextRefresh @
        (if players sd \<noteq> [] then player_table (sortedPlayers sd) else [])"
      by (auto simp: createServerEmbed_def)
    then show ?thesis by (simp add: status_fields_def)
  qed
  from main sp fld playerCount_eq [of sd] maxPlayers_eq [of sd] show ?thesis by blast
qed

text \<open>Twelve players with capacity 0 are 50 percent of 24; six of 24 are 25 percent.\<close>

theorem C4_capacity_percent_witness:
  "maxPlayers ex_empty_capacity = 24 \<and> capacityPercent ex_empty_capacity = 50 \<and>
   capacityPercent ex_server = 25 \<and> spec_capacityPercent 6 24 = 25"
proof -
  have a: "0 \<le> playerCount ex_empty_capacity" "playerCount ex_empty_capacity < 2 ^ 44"
    "0 < maxPlayers ex_empty_capacity"
    "\<not> 2 * maxPlayers ex_empty_capacity dvd 200 * playerCount ex_empty_capacity + maxPlayers ex_empty_capacity"
    by (simp_all add: playerCount_eq maxPlayers_eq ex_empty_capacity_def)
  have b: "0 \<le> playerCount ex_server" "playerCount ex_server < 2 ^ 44" "0 < maxPlayers ex_server"
    "\<not> 2 * maxPlayers ex_server dvd 200 * playerCount ex_server + maxPlayers ex_server"
    by (simp_all add: playerCount_eq maxPlayers_eq ex_server_def)
  have v: "playerCount ex_empty_capacity = 12" "maxPlayers ex_empty_capacity = 24"
    "playerCount ex_server = 6" "maxClients ex_server = Some 24 \<and> (1::int) \<le> 24"
    by (simp_all add: playerCount_eq maxPlayers_eq ex_empty_capacity_def ex_server_def)
  have e1: "Math_round (100 * of_int 12 / of_int 24) = 50" by code_simp
  have e2: "spec_capacityPercent 6 24 = 25" by code_simp
  from C4_capacity_percent [OF a, THEN conjunct2, THEN conjunct2, THEN conjunct1]
  have p1: "capacityPercent ex_empty_capacity = 50" unfolding v using e1 by simp
  from C4_capacity_percent [OF b, THEN conjunct2, THEN conjunct2, THEN conjunct2, THEN conjunct1,
      rule_format, OF v(4)]
  have p2: "capacityPercent ex_server = 25" unfolding v using e2 by simp
  from v(2) p1 p2 e2 show ?thesis by (intro conjI)
qed

text \<open>
  Claim C4 as stated fails twice. With \<^verbatim>\<open>maxClients = 0\<close> the divisor is 24, not 1: 12 players
  give 50, where the specification's formula gives 1200. And with 23 players of 40 the
  source gives 57 where the exact quotient 57.5 rounds to 58: \<^verbatim>\<open>23 / 40\<close> is rounded to a
  binary64 number below 0.575, and so is its product with 100 to one below 57.5.
\<close>

theorem C4_divisor_and_tie_counterexample:
  "maxClients ex_empty_capacity = Some 0 \<and> capacityPercent ex_empty_capacity = 50 \<and>
   spec_capacityPercent 12 0 = 1200 \<and>
   maxClients ex_tie = Some 40 \<and> capacityPercent ex_tie = 57 \<and> spec_capacityPercent 23 40 = 58"
proof -
  have a: "maxClients ex_empty_capacity = Some 0" "maxClients ex_tie = Some 40"
    by (simp_all add: ex_empty_capacity_def ex_tie_def)
  have b: "capacityPercent ex_empty_capacity = 50" by code_simp
  have c: "spec_capacityPercent 12 0 = 1200" by code_simp
  have d: "capacityPercent ex_tie = 57" by code_simp
  have e: "spec_capacityPercent 23 40 = 58" by code_simp
  from a b c d e show ?thesis by (intro conjI)
qed

section \<open>Properties of the message store\<close>

text \<open>The lexer reads back what \<^verbatim>\<open>JSON.stringify\<close> writes: a character, a string, the members.\<close>

lemma hex_digits_decode:
  "list_all (\<lambda>k. hex_value (hex_digit k) = Some k) [0..<16]"
  by code_simp

lemma hex_value_digit: "k < 16 \<Longrightarrow> hex_value (hex_digit k) = Some k"
  using hex_digits_decode unfolding list_all_iff by simp

lemma lex_literal:
  "c \<noteq> CHR 0x22 \<Longrightarrow> c \<noteq> CHR 0x5C \<Longrightarrow> \<not> of_char c < (32::nat) \<Longrightarrow>
   lex_from (Some acc) (c # rest) = lex_from (Some (c # acc)) rest"
  by simp

lemma lex_unicode_escape:
  assumes "of_char c < (32::nat)"
  shows "lex_from (Some acc)
           ([CHR 0x5C, CHR ''u'', CHR ''0'', CHR ''0'',
             hex_digit (of_char c div 16), hex_digit (of_char c mod 16)] @ rest) =
         lex_from (Some (c # acc)) rest"
proof -
  let ?n = "of_char c :: nat"
  have d: "?n div 16 < 16" "?n mod 16 < 16" using assms by simp_all
  have z: "hex_value (CHR ''0'') = Some 0" by (simp add: hex_value_def)
  have "hex4 [CHR ''0'', CHR ''0'', hex_digit (?n div 16), hex_digit (?n mod 16)] = Some ?n"
    by (simp add: hex4_def z hex_value_digit [OF d(1)] hex_value_digit [OF d(2)])
  moreover have "?n < 256" using assms by simp
  moreover have "char_of ?n = c" by simp
  ultimately show ?thesis by simp
qed

lemma lex_escape: "lex_from (Some acc) (quote_char c @ rest) = lex_from (Some (c # acc)) rest"
proof -
  consider "c = CHR 0x08" | "c = CHR 0x09" | "c = CHR 0x0A" | "c = CHR 0x0C" | "c = CHR 0x0D"
    | "c = CHR 0x22" | "c = CHR 0x5C"
    | "c \<notin> set [CHR 0x08, CHR 0x09, CHR 0x0A, CHR 0x0C, CHR 0x0D, CHR 0x22, CHR 0x5C]"
    by auto
  then show ?thesis
  proof cases
    case 8
    then have q: "quote_char c =
        (if of_char c < (32::nat) then
           [CHR 0x5C, CHR ''u'', CHR ''0'', CHR ''0'',
            hex_digit (of_char c div 16), hex_digit (of_char c mod 16)]
         else [c])"
      by (simp add: quote_char_def)
    show ?thesis
    proof (cases "of_char c < (32::nat)")
      case True
      with q lex_unicode_escape [OF True, of acc rest] show ?thesis by simp
    next
      case False
      with 8 q show ?thesis by simp
    qed
  qed (simp_all add: quote_char_def unescape_def)
qed

lemma lex_string_body:
  "lex_from (Some acc) (concat (map quote_char s) @ CHR 0x22 # rest) =
   map_option (Cons (Str (rev acc @ s))) (lex_from None rest)"
proof (induction s arbitrary: acc)
  case Nil
  show ?case by simp
next
  case (Cons c s)
  have "lex_from (Some acc) (concat (map quote_char (c # s)) @ CHR 0x22 # rest) =
        lex_from (Some acc) (quote_char c @ (concat (map quote_char s) @ CHR 0x22 # rest))"
    by simp
  also have "\<dots> = lex_from (Some (c # acc)) (concat (map quote_char s) @ CHR 0x22 # rest)"
    by (rule lex_escape)
  also have "\<dots> = map_option (Cons (Str (rev (c # acc) @ s))) (lex_from None rest)"
    by (rule Cons.IH)
  finally show ?case by simp
qed

lemma lex_quote:
  "lex_from None (quoteJSONString s @ rest) = map_option (Cons (Str s)) (lex_from None rest)"
  using lex_string_body [of "[]" s rest] by (simp add: quoteJSONString_def)

lemma lex_member:
  "lex_from None (stringify_member (k, v) @ rest) =
   map_option (\<lambda>ts. Str k # Colon # Str v # ts) (lex_from None rest)"
proof -
  have "lex_from None (stringify_member (k, v) @ rest) =
        lex_from None (quoteJSONString k @ (CHR '':'' # CHR '' '' # quoteJSONString v @ rest))"
    by (simp add: stringify_member_def)
  also have "\<dots> = map_option (Cons (Str k))
      (lex_from None (CHR '':'' # CHR '' '' # quoteJSONString v @ rest))"
    by (rule lex_quote)
  also have "lex_from None (CHR '':'' # CHR '' '' # quoteJSONString v @ rest) =
      map_option (Cons Colon) (lex_from None (quoteJSONString v @ rest))"
    by simp
  also have "lex_from None (quoteJSONString v @ rest) = map_option (Cons (Str v)) (lex_from None rest)"
    by (rule lex_quote)
  finally show ?thesis by (simp add: option.map_comp o_def)
qed

lemma lex_members:
  "lex_from None (join ('','' @ [CHR 0x0A]) (map stringify_member es) @ rest) =
   map_option (\<lambda>ts. member_tokens es @ ts) (lex_from None rest)"
proof (induction es rule: member_tokens.induct)
  case 1
  show ?case by (simp add: option.map_ident)
next
  case (2 k v)
  show ?case using lex_member [of k v rest] by simp
next
  case (3 k v e es)
  have "lex_from None (join ('','' @ [CHR 0x0A]) (map stringify_member ((k, v) # e # es)) @ rest) =
        lex_from None (stringify_member (k, v) @
          (CHR '','' # CHR 0x0A # join ('','' @ [CHR 0x0A]) (map stringify_member (e # es)) @ rest))"
    by simp
  also have "\<dots> = map_option (\<lambda>ts. Str k # Colon # Str v # ts)
      (lex_from None (CHR '','' # CHR 0x0A #
         join ('','' @ [CHR 0x0A]) (map stringify_member (e # es)) @ rest))"
    by (rule lex_member)
  also have "lex_from None (CHR '','' # CHR 0x0A #
         join ('','' @ [CHR 0x0A]) (map stringify_member (e # es)) @ rest) =
      map_option (Cons Comma)
        (lex_from None (join ('','' @ [CHR 0x0A]) (map stringify_member (e # es)) @ rest))"
    by simp
  also note "3.IH"
  finally show ?case by (simp add: option.map_comp o_def)
qed

lemma parse_members_tokens:
  "es \<noteq> [] \<Longrightarrow> parse_members (member_tokens es @ [RBrace]) = Some es"
  by (induction es rule: member_tokens.induct) simp_all

text \<open>
  On a list of entries with distinct keys, the enumeration of the properties is a
  rearrangement, and \<^verbatim>\<open>Object.fromEntries\<close> keeps the entries as they are.
\<close>

lemma own_entries_set: "set (own_entries obj) = set obj"
  by (auto simp: own_entries_def)

lemma own_entries_empty: "own_entries obj = [] \<longleftrightarrow> obj = []"
  using own_entries_set [of obj] by (metis set_empty)

lemma own_entries_distinct:
  assumes "distinct (map fst obj)"
  shows "distinct (map fst (own_entries obj))"
proof -
  let ?ix = "filter (\<lambda>(k, v). is_array_index k) obj"
  let ?rest = "filter (\<lambda>(k, v). \<not> is_array_index k) obj"
  have a: "distinct (map fst ?ix)" and b: "distinct (map fst ?rest)"
    using assms by (simp_all add: distinct_map_filter)
  have c: "distinct (map fst (sort_key (\<lambda>(k, v). decimal_value k) ?ix))"
    using a by (simp add: distinct_map)
  have "fst ` set ?ix \<inter> fst ` set ?rest = {}" by auto
  with b c show ?thesis by (simp add: own_entries_def)
qed

lemma own_entries_map_of:
  assumes "distinct (map fst obj)"
  shows "map_of (own_entries obj) = map_of obj"
  using own_entries_distinct [OF assms] assms own_entries_set [of obj]
  by (simp add: map_of_inject_set)

lemma fold_update_distinct:
  "distinct (map fst es) \<Longrightarrow> fst ` set es \<inter> fst ` set acc = {} \<Longrightarrow>
   fold (\<lambda>(k, v) obj. AList.update k v obj) es acc = acc @ es"
proof (induction es arbitrary: acc)
  case Nil
  show ?case by simp
next
  case (Cons e es)
  obtain k v where e: "e = (k, v)" by (cases e) auto
  from Cons.prems e have notin: "k \<notin> fst ` set acc" by auto
  then have u: "AList.update k v acc = acc @ [(k, v)]"
    by (induction acc) auto
  from Cons.prems e have "distinct (map fst es)" "fst ` set es \<inter> fst ` set (acc @ [(k, v)]) = {}"
    by auto
  from Cons.IH [OF this] show ?case by (simp add: e u)
qed

lemma fromEntries_distinct: "distinct (map fst es) \<Longrightarrow> fromEntries es = es"
  using fold_update_distinct [of es "[]"] by (simp add: fromEntries_def)

lemma fold_update_map_of:
  "map_of (fold (\<lambda>(k, v) m. AList.update k v m) es acc) = map_of acc ++ map_of (rev es)"
proof (induction es arbitrary: acc)
  case Nil
  show ?case by simp
next
  case (Cons e es)
  obtain k v where e: "e = (k, v)" by (cases e) auto
  have "map_of (fold (\<lambda>(k, v) m. AList.update k v m) (e # es) acc) =
        map_of (AList.update k v acc) ++ map_of (rev es)"
    using Cons.IH [of "AList.update k v acc"] by (simp add: e)
  also have "\<dots> = map_of acc ++ map_of (rev (e # es))"
    by (rule ext) (simp add: e update_conv' map_add_def split: option.splits)
  finally show ?case .
qed

lemma map_of_rev_distinct: "distinct (map fst es) \<Longrightarrow> map_of (rev es) = map_of es"
  by (simp add: map_of_inject_set distinct_rev rev_map [symmetric])

text \<open>Parsing the text of an object gives the object, its properties in enumeration order.\<close>

lemma parse_stringify: "JSON_parse (JSON_stringify obj) = Some (fromEntries (own_entries obj))"
proof (cases "obj = []")
  case True
  then show ?thesis
    by (simp add: JSON_stringify_def JSON_parse_def parse_object_def own_entries_def fromEntries_def)
next
  case False
  let ?es = "own_entries obj"
  have ne: "?es \<noteq> []" using False by (simp add: own_entries_empty)
  have "lex_from None (JSON_stringify obj) =
        map_option (Cons LBrace) (lex_from None
          (join ('','' @ [CHR 0x0A]) (map stringify_member ?es) @ [CHR 0x0A, CHR ''}'']))"
    using False by (simp add: JSON_stringify_def)
  also have "lex_from None (join ('','' @ [CHR 0x0A]) (map stringify_member ?es) @ [CHR 0x0A, CHR ''}'']) =
        map_option (\<lambda>ts. member_tokens ?es @ ts) (lex_from None [CHR 0x0A, CHR ''}''])"
    by (rule lex_members)
  also have "lex_from None [CHR 0x0A, CHR ''}''] = Some [RBrace]" by simp
  finally have toks: "lex_from None (JSON_stringify obj) = Some (LBrace # member_tokens ?es @ [RBrace])"
    by simp
  obtain t ts where mt: "member_tokens ?es = Str t # Colon # ts"
    using ne by (cases ?es rule: member_tokens.cases) auto
  have "parse_object (LBrace # member_tokens ?es @ [RBrace]) =
        parse_members (member_tokens ?es @ [RBrace])"
    by (simp add: parse_object_def mt)
  with parse_members_tokens [OF ne] toks show ?thesis by (simp add: JSON_parse_def)
qed

lemma fold_update_keys_distinct:
  "distinct (map fst acc) \<Longrightarrow>
   distinct (map fst (fold (\<lambda>(k, v) m. AList.update k v m) es acc))"
  by (induction es arbitrary: acc) (auto simp: distinct_update)

lemma own_entries_map_of_rev:
  assumes "distinct (map fst obj)"
  shows "map_of (rev (own_entries obj)) = map_of obj"
  using map_of_rev_distinct [OF own_entries_distinct [OF assms]] own_entries_map_of [OF assms]
  by simp

text \<open>
  After a save whose write succeeds, a load on the same file sets the saved entries in the
  Map of the loading storage.
\<close>

lemma save_then_load:
  assumes d: "distinct (map fst (heap w (message_storage.lastMessageIds ms)))"
    and f: "messageIdsFile ms' = messageIdsFile ms"
    and s: "saveMessageIds ms True w = (w1, fx)"
  shows "heap (loadMessageIds ms' True w1) (message_storage.lastMessageIds ms') =
         fold (\<lambda>(k, v) m. AList.update k v m)
           (own_entries (own_entries (heap w (message_storage.lastMessageIds ms))))
           (heap w (message_storage.lastMessageIds ms'))"
proof -
  let ?m = "heap w (message_storage.lastMessageIds ms)"
  have w1: "w1 = w\<lparr>disk := (disk w)(messageIdsFile ms \<mapsto> JSON_stringify ?m)\<rparr>"
    using s by (simp add: saveMessageIds_def Let_def fromEntries_distinct [OF d])
  have p: "JSON_parse (JSON_stringify ?m) = Some (own_entries ?m)"
    by (simp add: parse_stringify fromEntries_distinct [OF own_entries_distinct [OF d]])
  show ?thesis by (simp add: loadMessageIds_def w1 f p)
qed

text \<open>
  Claim C9. Let the Map of a storage hold a mapping \<open>m\<close> from strings to strings (its keys
  are distinct, as the keys of a Map are). After \<^verbatim>\<open>saveMessageIds()\<close> has written the file,
  \<^verbatim>\<open>loadMessageIds()\<close> reading it, called on the same storage or on a storage of the same
  file whose Map is empty (the storage of a restarted process), leaves in that Map a
  mapping equal to \<open>m\<close>: every key has the value it has in \<open>m\<close>, and no other key has
  one. The entries may come in another order, the keys that are array indices first.
\<close>

theorem C9_store_round_trip:
  assumes "distinct (map fst (heap w (message_storage.lastMessageIds ms)))"
    and "messageIdsFile ms' = messageIdsFile ms"
    and "message_storage.lastMessageIds ms' = message_storage.lastMessageIds ms \<or>
         heap w (message_storage.lastMessageIds ms') = []"
    and "saveMessageIds ms True w = (w1, fx)"
  shows "map_of (heap (loadMessageIds ms' True w1) (message_storage.lastMessageIds ms')) =
           map_of (heap w (message_storage.lastMessageIds ms)) \<and>
         distinct (map fst (heap (loadMessageIds ms' True w1) (message_storage.lastMessageIds ms')))"
proof -
  let ?m = "heap w (message_storage.lastMessageIds ms)"
  let ?old = "heap w (message_storage.lastMessageIds ms')"
  note h = save_then_load [OF assms(1,2,4)]
  have d1: "distinct (map fst (own_entries ?m))" by (rule own_entries_distinct [OF assms(1)])
  have "map_of (rev (own_entries (own_entries ?m))) = map_of ?m"
    using own_entries_map_of_rev [OF d1] own_entries_map_of [OF assms(1)] by simp
  then have m: "map_of (heap (loadMessageIds ms' True w1) (message_storage.lastMessageIds ms')) =
      map_of ?old ++ map_of ?m"
    by (simp add: h fold_update_map_of)
  have old: "map_of ?old ++ map_of ?m = map_of ?m \<and> distinct (map fst ?old)"
    using assms(3,1) by (auto simp: map_add_def fun_eq_iff split: option.splits)
  show ?thesis using m old by (simp add: h fold_update_keys_distinct)
qed

text \<open>A save and a load after a restart, by the theorem.\<close>

lemma ex_ids_distinct: "distinct (map fst ex_ids)"
  by (simp add: ex_ids_def)

theorem C9_store_round_trip_witness:
  "distinct (map fst (heap ex_ids_world (message_storage.lastMessageIds ex_storage))) \<and>
   messageIdsFile ex_restarted = messageIdsFile ex_storage \<and>
   heap ex_ids_world (message_storage.lastMessageIds ex_restarted) = [] \<and>
   heap ex_ids_world (message_storage.lastMessageIds ex_storage) = ex_ids \<and>
   map_of (heap (loadMessageIds ex_restarted True
                  (fst (saveMessageIds ex_storage True ex_ids_world :: world \<times> unit effect list)))
             (message_storage.lastMessageIds ex_restarted)) = map_of ex_ids"
proof -
  let ?s = "saveMessageIds ex_storage True ex_ids_world :: world \<times> unit effect list"
  have a: "heap ex_ids_world (message_storage.lastMessageIds ex_storage) = ex_ids"
    by (simp add: ex_ids_world_def ex_storage_def)
  have b: "messageIdsFile ex_restarted = messageIdsFile ex_storage"
    by (simp add: ex_restarted_def ex_storage_def)
  have c: "heap ex_ids_world (message_storage.lastMessageIds ex_restarted) = []"
    by (simp add: ex_ids_world_def ex_restarted_def)
  have d: "distinct (map fst (heap ex_ids_world (message_storage.lastMessageIds ex_storage)))"
    by (simp add: a ex_ids_distinct)
  have e: "?s = (fst ?s, snd ?s)" by simp
  from C9_store_round_trip [of ex_ids_world ex_storage ex_restarted "fst ?s" "snd ?s", OF d b _ e] c
  have "map_of (heap (loadMessageIds ex_restarted True (fst ?s))
             (message_storage.lastMessageIds ex_restarted)) = map_of ex_ids"
    by (simp add: a)
  with a b c d show ?thesis by (intro conjI)
qed

text \<open>
  The Map after this load, entry by entry; and the same load after a save whose write
  fails, which \<^verbatim>\<open>saveMessageIds\<close> catches: there is no file, and the Map stays empty.
\<close>

lemma ex_round_trip_order:
  "heap (loadMessageIds ex_restarted True
           (fst (saveMessageIds ex_storage True ex_ids_world :: world \<times> unit effect list)))
     (message_storage.lastMessageIds ex_restarted) =
   [(''9'', ''a \"quoted\" name''), (''10'', ''line'' @ [CHR 0x0A] @ ''break''),
    (''https://discord.com/api/webhooks/1/aaa'', ''111''),
    (''back'' @ [CHR 0x5C] @ ''slash'', [CHR 0x01, CHR 0xE2])]"
  by code_simp

lemma ex_failed_save_not_restored:
  "heap (loadMessageIds ex_restarted True
           (fst (saveMessageIds ex_storage False ex_ids_world :: world \<times> unit effect list)))
     (message_storage.lastMessageIds ex_restarted) = []"
  by (simp add: saveMessageIds_def loadMessageIds_def ex_ids_world_def ex_restarted_def
      ex_storage_def Let_def)

end
